theory Spec2Isabelle
  imports Main "HOL-Library.Word"
begin

section \<open>JavaScript strings\<close>

text \<open>
  A JavaScript string is a sequence of 16-bit code units; \<open>length\<close>, \<open>substring\<close>,
  \<open>lastIndexOf\<close> and regular expressions without the \<open>u\<close> flag all count code units.
  Indices and lengths are JavaScript numbers; the ones used here are integers, modelled as \<open>int\<close>.
\<close>

type_synonym jschar = "16 word"
type_synonym jsstring = "jschar list"

definition ascii :: "string \<Rightarrow> jsstring" where
  "ascii s = map (\<lambda>c. word_of_nat (of_char c)) s"

definition SPACE :: jschar where
  "SPACE = 0x20"

text \<open>
  The characters removed by \<open>String.prototype.trim\<close> and matched by \<open>\s\<close>: the
  WhiteSpace and LineTerminator code points of ECMAScript.
\<close>

definition isWhiteSpace :: "jschar \<Rightarrow> bool" where
  "isWhiteSpace c \<longleftrightarrow>
     c = 0x09 \<or> c = 0x0A \<or> c = 0x0B \<or> c = 0x0C \<or> c = 0x0D \<or> c = 0x20 \<or> c = 0xA0 \<or>
     c = 0x1680 \<or> (0x2000 \<le> c \<and> c \<le> 0x200A) \<or> c = 0x2028 \<or> c = 0x2029 \<or>
     c = 0x202F \<or> c = 0x205F \<or> c = 0x3000 \<or> c = 0xFEFF"

definition trimStart :: "jsstring \<Rightarrow> jsstring" where
  "trimStart s = dropWhile isWhiteSpace s"

definition trimEnd :: "jsstring \<Rightarrow> jsstring" where
  "trimEnd s = rev (dropWhile isWhiteSpace (rev s))"

definition trim :: "jsstring \<Rightarrow> jsstring" where
  "trim s = trimEnd (trimStart s)"

text \<open>
  \<open>s.substring(a, b)\<close>: both indices are clamped to \<open>[0, length]\<close> and swapped when
  the first exceeds the second.
\<close>

definition substring :: "jsstring \<Rightarrow> int \<Rightarrow> int \<Rightarrow> jsstring" where
  "substring s a b =
     (let len = int (length s);
          a' = min (max a 0) len;
          b' = min (max b 0) len;
          lo = min a' b';
          hi = max a' b'
      in take (nat (hi - lo)) (drop (nat lo) s))"

text \<open>
  \<open>s.lastIndexOf(c, pos)\<close> for a one-character search string: the greatest index
  \<open>k \<le> pos\<close> (with \<open>pos\<close> clamped to \<open>[0, length]\<close>) that holds \<open>c\<close>, or \<open>-1\<close>.
\<close>

fun lastIndexFrom :: "jsstring \<Rightarrow> jschar \<Rightarrow> nat \<Rightarrow> int" where
  "lastIndexFrom s c 0 = (if 0 < length s \<and> s ! 0 = c then 0 else - 1)"
| "lastIndexFrom s c (Suc k) =
     (if Suc k < length s \<and> s ! Suc k = c then int (Suc k) else lastIndexFrom s c k)"

definition lastIndexOf :: "jsstring \<Rightarrow> jschar \<Rightarrow> int \<Rightarrow> int" where
  "lastIndexOf s c pos = lastIndexFrom s c (nat (min (max pos 0) (int (length s))))"

section \<open>Regular expressions\<close>

text \<open>
  The regular expressions of the sources are sequences of quantified character classes, an
  end-of-input assertion and one optional group. The matcher is the backtracking matcher of
  ECMAScript on this fragment: quantifiers are greedy, and the first successful alternative
  in priority order is the match. \<open>matchSeq r s\<close> is the length of the match of the
  sequence \<open>r\<close> at the start of \<open>s\<close>.
\<close>

datatype item =
    One "jschar \<Rightarrow> bool"
  | Opt "jschar \<Rightarrow> bool"
  | Star "jschar \<Rightarrow> bool"
  | Plus "jschar \<Rightarrow> bool"
  | Eoi
  | OptG "item list"

function matchSeq :: "item list \<Rightarrow> jsstring \<Rightarrow> nat option" where
  "matchSeq [] s = Some 0"
| "matchSeq (One p # r) [] = None"
| "matchSeq (One p # r) (c # cs) = (if p c then map_option Suc (matchSeq r cs) else None)"
| "matchSeq (Opt p # r) [] = matchSeq r []"
| "matchSeq (Opt p # r) (c # cs) =
     (if p c
      then (case matchSeq r cs of Some n \<Rightarrow> Some (Suc n) | None \<Rightarrow> matchSeq r (c # cs))
      else matchSeq r (c # cs))"
| "matchSeq (Star p # r) [] = matchSeq r []"
| "matchSeq (Star p # r) (c # cs) =
     (if p c
      then (case matchSeq (Star p # r) cs of Some n \<Rightarrow> Some (Suc n) | None \<Rightarrow> matchSeq r (c # cs))
      else matchSeq r (c # cs))"
| "matchSeq (Plus p # r) [] = None"
| "matchSeq (Plus p # r) (c # cs) =
     (if p c then map_option Suc (matchSeq (Star p # r) cs) else None)"
| "matchSeq (Eoi # r) s = (if s = [] then matchSeq r s else None)"
| "matchSeq (OptG g # r) s =
     (case matchSeq (g @ r) s of Some n \<Rightarrow> Some n | None \<Rightarrow> matchSeq r s)"
  by pat_completeness auto
termination
  by (relation "measures [\<lambda>(r, s). length s, \<lambda>(r, s). size_list size r]") auto

text \<open>Alternation \<open>a|b\<close> at the top of a pattern: the first alternative that matches.\<close>

fun matchAlts :: "item list list \<Rightarrow> jsstring \<Rightarrow> nat option" where
  "matchAlts [] s = None"
| "matchAlts (a # as) s = (case matchSeq a s of Some n \<Rightarrow> Some n | None \<Rightarrow> matchAlts as s)"

text \<open>
  \<open>s.match(re)\<close> with the \<open>g\<close> flag: all matches from left to right; after a match the
  search resumes at its end (one code unit further after an empty match), and a position with
  no match is skipped.
\<close>

function matchAllG :: "item list list \<Rightarrow> jsstring \<Rightarrow> jsstring list" where
  "matchAllG alts [] = (case matchAlts alts [] of Some n \<Rightarrow> [[]] | None \<Rightarrow> [])"
| "matchAllG alts (c # cs) =
     (case matchAlts alts (c # cs) of
        None \<Rightarrow> matchAllG alts cs
      | Some n \<Rightarrow>
          if n = 0 then [] # matchAllG alts cs
          else take n (c # cs) # matchAllG alts (drop n (c # cs)))"
  by pat_completeness auto
termination
  by (relation "measure (\<lambda>(alts, s). length s)") auto

section \<open>Text chunking (utils/textSplitter.ts)\<close>

definition isSentenceEnd :: "jschar \<Rightarrow> bool" where
  "isSentenceEnd c \<longleftrightarrow> c = 0x2E \<or> c = 0x3F \<or> c = 0x21"

definition isQuote :: "jschar \<Rightarrow> bool" where
  "isQuote c \<longleftrightarrow> c = 0x22"

text \<open>The pattern \<^verbatim>\<open>/[^.?!]+[.?!]+["]?\s*|[^.?!]+$/g\<close>.\<close>

definition sentenceRegex :: "item list list" where
  "sentenceRegex =
     [[Plus (\<lambda>c. \<not> isSentenceEnd c), Plus isSentenceEnd, Opt isQuote, Star isWhiteSpace],
      [Plus (\<lambda>c. \<not> isSentenceEnd c), Eoi]]"

text \<open>
  The \<open>for\<close> loop over the sentences; its state is the list of chunks and the running
  chunk \<open>currentChunk\<close>.
\<close>

fun sentenceLoop :: "int \<Rightarrow> jsstring list \<Rightarrow> jsstring list \<Rightarrow> jsstring \<Rightarrow> jsstring list \<times> jsstring" where
  "sentenceLoop maxLength [] chunks currentChunk = (chunks, currentChunk)"
| "sentenceLoop maxLength (sentence # rest) chunks currentChunk =
     (let trimmedSentence = trim sentence in
      if length trimmedSentence = 0 then sentenceLoop maxLength rest chunks currentChunk
      else if length currentChunk > 0 \<and>
              int (length currentChunk) + int (length trimmedSentence) > maxLength
        then sentenceLoop maxLength rest (chunks @ [trim currentChunk]) ([] @ trimmedSentence @ [SPACE])
        else sentenceLoop maxLength rest chunks (currentChunk @ trimmedSentence @ [SPACE]))"

definition sentenceChunks :: "int \<Rightarrow> jsstring list \<Rightarrow> jsstring list" where
  "sentenceChunks maxLength sentences =
     (case sentenceLoop maxLength sentences [] [] of
        (chunks, currentChunk) \<Rightarrow>
          if length (trim currentChunk) > 0 then chunks @ [trim currentChunk] else chunks)"

text \<open>
  The \<open>while\<close> loop of the fallback. Nothing in the source bounds \<open>maxLength\<close> from
  below, and with a negative \<open>maxLength\<close> the loop does not advance; the loop is therefore
  a partial function, and \<open>None\<close> stands for a call that does not return.
\<close>

partial_function (option) fallbackLoop ::
  "jsstring \<Rightarrow> int \<Rightarrow> int \<Rightarrow> jsstring list \<Rightarrow> jsstring list option" where
  "fallbackLoop trimmedText maxLength startIndex chunks =
     (if startIndex < int (length trimmedText) then
        (let endIndex0 = startIndex + maxLength;
             endIndex =
               (if endIndex0 < int (length trimmedText) then
                  (let lastSpace = lastIndexOf trimmedText SPACE endIndex0
                   in if lastSpace > startIndex then lastSpace else endIndex0)
                else int (length trimmedText));
             chunk = trim (substring trimmedText startIndex endIndex)
         in fallbackLoop trimmedText maxLength (endIndex + 1)
              (if chunk \<noteq> [] then chunks @ [chunk] else chunks))
      else Some chunks)"

definition splitTextIntoChunks :: "jsstring \<Rightarrow> int \<Rightarrow> jsstring list option" where
  "splitTextIntoChunks text maxLength =
     (if text = [] \<or> length (trim text) = 0 then Some []
      else
        (let trimmedText = trim text in
         if int (length trimmedText) \<le> maxLength then Some [trimmedText]
         else
           (let sentences = matchAllG sentenceRegex trimmedText in
            case (if length sentences > 1 then Some (sentenceChunks maxLength sentences)
                  else fallbackLoop trimmedText maxLength 0 [])
            of None \<Rightarrow> None
             | Some chunks \<Rightarrow>
                 if length chunks = 0 \<and> length trimmedText > 0 then Some [trimmedText]
                 else Some chunks)))"

text \<open>Auxiliary notions for the statements about chunks.\<close>

declare fallbackLoop.simps [code]

definition blank :: "jsstring \<Rightarrow> bool" where
  "blank s = list_all isWhiteSpace s"

definition tidy :: "jsstring \<Rightarrow> bool" where
  "tidy c \<longleftrightarrow> c \<noteq> [] \<and> \<not> isWhiteSpace (hd c) \<and> \<not> isWhiteSpace (last c)"

definition windowEnd :: "jsstring \<Rightarrow> int \<Rightarrow> int \<Rightarrow> int" where
  "windowEnd t m s =
     (if s + m < int (length t)
      then (if s < lastIndexOf t SPACE (s + m) then lastIndexOf t SPACE (s + m) else s + m)
      else int (length t))"

definition pushChunk :: "jsstring \<Rightarrow> int \<Rightarrow> int \<Rightarrow> jsstring list \<Rightarrow> jsstring list" where
  "pushChunk t m s acc =
     (if trim (substring t s (windowEnd t m s)) \<noteq> []
      then acc @ [trim (substring t s (windowEnd t m s))] else acc)"

definition bounded :: "int \<Rightarrow> jsstring \<Rightarrow> bool" where
  "bounded m c \<longleftrightarrow> int (length c) \<le> m \<and> tidy c"

definition noSentenceEnd :: "jsstring \<Rightarrow> bool" where
  "noSentenceEnd s = list_all (\<lambda>c. \<not> isSentenceEnd c) s"

section \<open>Replacing matches\<close>

text \<open>
  \<open>s.replace(re, rep)\<close> with the \<open>g\<close> flag (every match, from left to right) and
  without it (the first match only); \<open>rep\<close> has no \<open>$\<close> pattern.
\<close>

function replaceAllG :: "item list list \<Rightarrow> jsstring \<Rightarrow> jsstring \<Rightarrow> jsstring" where
  "replaceAllG alts rep [] = (case matchAlts alts [] of Some n \<Rightarrow> rep | None \<Rightarrow> [])"
| "replaceAllG alts rep (c # cs) =
     (case matchAlts alts (c # cs) of
        None \<Rightarrow> c # replaceAllG alts rep cs
      | Some n \<Rightarrow>
          if n = 0 then rep @ c # replaceAllG alts rep cs
          else rep @ replaceAllG alts rep (drop n (c # cs)))"
  by pat_completeness auto
termination
  by (relation "measure (\<lambda>(alts, rep, s). length s)") auto

fun replaceFirst :: "item list list \<Rightarrow> jsstring \<Rightarrow> jsstring \<Rightarrow> jsstring" where
  "replaceFirst alts rep [] = (case matchAlts alts [] of Some n \<Rightarrow> rep | None \<Rightarrow> [])"
| "replaceFirst alts rep (c # cs) =
     (case matchAlts alts (c # cs) of
        Some n \<Rightarrow> rep @ drop n (c # cs)
      | None \<Rightarrow> c # replaceFirst alts rep cs)"

section \<open>The Unicode tables of the JavaScript engine\<close>

text \<open>
  Case conversion and the general categories \<open>\p{L}\<close> and \<open>\p{N}\<close> are tables of the
  JavaScript engine, not of this repository; the model takes them as a parameter.
  \<open>toLowerCase\<close> is \<open>String.prototype.toLowerCase\<close>; \<open>toUpperUnit\<close> is the upper-case
  mapping of one code unit outside ASCII, as used for the \<open>i\<close> flag of a regular expression
  without the \<open>u\<close> flag; \<open>isLetter\<close> and \<open>isNumber\<close> decide \<open>\p{L}\<close> and
  \<open>\p{N}\<close> on a code point.
\<close>

record unicode =
  toLowerCase :: "jsstring \<Rightarrow> jsstring"
  toUpperUnit :: "jschar \<Rightarrow> jschar"
  isLetter :: "nat \<Rightarrow> bool"
  isNumber :: "nat \<Rightarrow> bool"

definition asciiUnicode :: unicode where
  "asciiUnicode =
     \<lparr>toLowerCase = map (\<lambda>c. if 0x41 \<le> c \<and> c \<le> 0x5A then c + 0x20 else c),
      toUpperUnit = (\<lambda>c. c),
      isLetter = (\<lambda>cp. (0x41 \<le> cp \<and> cp \<le> 0x5A) \<or> (0x61 \<le> cp \<and> cp \<le> 0x7A)),
      isNumber = (\<lambda>cp. 0x30 \<le> cp \<and> cp \<le> 0x39)\<rparr>"

section \<open>Local TTS client (fetchSpeechFromLocalServer)\<close>

text \<open>
  The first replacement has the \<open>u\<close> flag: it works on code points, and a surrogate pair
  is one character.
\<close>

definition isHighSurrogate :: "jschar \<Rightarrow> bool" where
  "isHighSurrogate c \<longleftrightarrow> 0xD800 \<le> c \<and> c \<le> 0xDBFF"

definition isLowSurrogate :: "jschar \<Rightarrow> bool" where
  "isLowSurrogate c \<longleftrightarrow> 0xDC00 \<le> c \<and> c \<le> 0xDFFF"

definition codePoint :: "jschar \<Rightarrow> jschar \<Rightarrow> nat" where
  "codePoint hi lo = 0x10000 + (unat hi - 0xD800) * 0x400 + (unat lo - 0xDC00)"

fun codePoints :: "jsstring \<Rightarrow> nat list" where
  "codePoints [] = []"
| "codePoints [c] = [unat c]"
| "codePoints (c # d # cs) =
     (if isHighSurrogate c \<and> isLowSurrogate d then codePoint c d # codePoints cs
      else unat c # codePoints (d # cs))"

definition isWhiteSpaceCp :: "nat \<Rightarrow> bool" where
  "isWhiteSpaceCp cp \<longleftrightarrow> cp < 0x10000 \<and> isWhiteSpace (word_of_nat cp)"

text \<open>The characters that \<^verbatim>\<open>/[^\p{L}\p{N}\s.,!?:...]/gu\<close> does not match.\<close>

definition keptByTts :: "'a unicode_scheme \<Rightarrow> nat \<Rightarrow> bool" where
  "keptByTts u cp \<longleftrightarrow>
     isLetter u cp \<or> isNumber u cp \<or> isWhiteSpaceCp cp \<or>
     cp = 0x2E \<or> cp = 0x2C \<or> cp = 0x21 \<or> cp = 0x3F \<or> cp = 0x3A \<or> cp = 0x2026"

fun replaceUnwanted :: "'a unicode_scheme \<Rightarrow> jsstring \<Rightarrow> jsstring" where
  "replaceUnwanted u [] = []"
| "replaceUnwanted u [c] = (if keptByTts u (unat c) then [c] else [SPACE])"
| "replaceUnwanted u (c # d # cs) =
     (if isHighSurrogate c \<and> isLowSurrogate d
      then (if keptByTts u (codePoint c d) then c # d # replaceUnwanted u cs
            else SPACE # replaceUnwanted u cs)
      else (if keptByTts u (unat c) then c else SPACE) # replaceUnwanted u (d # cs))"

text \<open>The pattern \<^verbatim>\<open>/\s+/g\<close>.\<close>

definition whitespaceRun :: "item list list" where
  "whitespaceRun = [[Plus isWhiteSpace]]"

definition collapseWhitespace :: "jsstring \<Rightarrow> jsstring" where
  "collapseWhitespace s = replaceAllG whitespaceRun [SPACE] s"

definition sanitize :: "'a unicode_scheme \<Rightarrow> jsstring \<Rightarrow> jsstring" where
  "sanitize u text = trim (collapseWhitespace (replaceUnwanted u text))"

text \<open>
  What the function throws: a \<open>TtsError\<close> with its message, or the \<open>AbortError\<close> of a
  cancelled request, which is passed on as it is. The network is a parameter: \<open>net\<close> gives
  the outcome of the POST request. The result holds the requests issued and the value returned
  or thrown.
\<close>

datatype ttsMessage =
    EmptyText
  | UrlNotConfigured
  | EmptyAfterSanitization
  | NetworkError jsstring
  | OtherMessage jsstring

datatype thrown = TtsError ttsMessage | AbortError

record speakRequest =
  req_url :: jsstring
  req_text :: jsstring
  req_language :: jsstring
  req_accent :: jsstring
  req_voice :: jsstring

text \<open>
  The body of a response that is not ok, as \<open>response.json()\<close> gives it. \<open>NoJson\<close>: the
  promise rejects, and the \<open>catch\<close> on it supplies \<open>{ error: 'Unknown server error' }\<close>.
  \<open>NullJson\<close>: the body is the JSON text \<open>null\<close>; reading \<open>errorData.error\<close> then throws a
  \<open>TypeError\<close>, which the outer \<open>catch\<close> reports as a network error. \<open>ErrorField e\<close>: any
  other value, with \<open>e\<close> the text that the template string gives for its \<open>error\<close> property,
  and \<open>None\<close> when the property is absent or falsy (an empty text is falsy too).
\<close>

datatype errorBody = NoJson | NullJson | ErrorField "jsstring option"

text \<open>
  The outcome of the request: \<open>fetch\<close> (or \<open>response.blob()\<close> after it) rejects with the
  \<open>AbortError\<close> of the signal, with a \<open>TypeError\<close>, or with another error that has a message;
  or \<open>fetch\<close> resolves to a response that is not ok, with its status and its body, or to a
  response that is ok, with its blob.
\<close>

datatype 'b netOutcome =
    Aborted
  | NetworkFailure
  | Failure jsstring
  | NotOk jsstring errorBody
  | Audio 'b

definition fetchSpeechFromLocalServer ::
  "'a unicode_scheme \<Rightarrow> jsstring \<Rightarrow> jsstring \<Rightarrow> (speakRequest \<Rightarrow> 'b netOutcome) \<Rightarrow>
     speakRequest list \<times> (thrown + 'b)" where
  "fetchSpeechFromLocalServer u txt serverUrl net =
     (if txt = [] \<or> length (trim txt) = 0 then ([], Inl (TtsError EmptyText))
      else if serverUrl = [] then ([], Inl (TtsError UrlNotConfigured))
      else
        (let cleanedText = sanitize u txt in
         if cleanedText = [] then ([], Inl (TtsError EmptyAfterSanitization))
         else
           (let req = \<lparr>req_url = serverUrl @ ascii ''/speak'', req_text = cleanedText,
                          req_language = ascii ''vi'', req_accent = ascii ''vi_VN'',
                          req_voice = []\<rparr>
            in ([req],
                case net req of
                  Audio b \<Rightarrow> Inr b
                | Aborted \<Rightarrow> Inl AbortError
                | NetworkFailure \<Rightarrow> Inl (TtsError (NetworkError serverUrl))
                | Failure msg \<Rightarrow> Inl (TtsError (OtherMessage msg))
                | NotOk status body \<Rightarrow>
                    (case body of
                       NullJson \<Rightarrow> Inl (TtsError (NetworkError serverUrl))
                     | NoJson \<Rightarrow>
                         Inl (TtsError (OtherMessage
                           (ascii ''Server responded with '' @ status @ ascii '': '' @
                            ascii ''Unknown server error'')))
                     | ErrorField e \<Rightarrow>
                         Inl (TtsError (OtherMessage
                           (ascii ''Server responded with '' @ status @ ascii '': '' @
                            (case e of
                               None \<Rightarrow> ascii ''Failed to fetch audio''
                             | Some msg \<Rightarrow>
                                 if msg = [] then ascii ''Failed to fetch audio'' else msg)))))))))"

text \<open>
  The words of a string (its maximal runs without whitespace), and the words joined by single
  spaces: what collapsing the whitespace runs and trimming is specified to produce.
\<close>

fun wordsFrom :: "jsstring \<Rightarrow> jsstring \<Rightarrow> jsstring list" where
  "wordsFrom cur [] = (if cur = [] then [] else [cur])"
| "wordsFrom cur (c # cs) =
     (if isWhiteSpace c then (if cur = [] then wordsFrom [] cs else cur # wordsFrom [] cs)
      else wordsFrom (cur @ [c]) cs)"

definition wordsOf :: "jsstring \<Rightarrow> jsstring list" where
  "wordsOf s = wordsFrom [] s"

fun joinWords :: "jsstring list \<Rightarrow> jsstring" where
  "joinWords [] = []"
| "joinWords [w] = w"
| "joinWords (w # v # ws) = w @ SPACE # joinWords (v # ws)"

section \<open>Domain model (types.ts)\<close>

text \<open>
  \<open>Chapter\<close> and \<open>Book\<close>. The fields \<open>id\<close> and \<open>title\<close> of the two interfaces are
  \<open>chapter_id\<close>, \<open>chapter_title\<close> and \<open>book_id\<close>, \<open>book_title\<close> here; an optional field
  is an \<open>option\<close>.
\<close>

record Chapter =
  chapter_id :: jsstring
  chapter_title :: jsstring
  content :: jsstring

record Position =
  chapterIndex :: int
  sentenceIndex :: int

record Book =
  book_id :: jsstring
  book_title :: jsstring
  author :: "jsstring option"
  coverImage :: "jsstring option"
  chapters :: "Chapter list"
  lastPosition :: "Position option"

section \<open>Case-insensitive regular expressions built from a string\<close>

text \<open>
  \<open>Canonicalize\<close> of ECMAScript for the \<open>i\<close> flag without the \<open>u\<close> flag: the upper-case
  mapping of the code unit, except that a code unit outside ASCII is never mapped into ASCII.
\<close>

definition canonicalize :: "'a unicode_scheme \<Rightarrow> jschar \<Rightarrow> jschar" where
  "canonicalize u c =
     (if c < 0x80 then (if 0x61 \<le> c \<and> c \<le> 0x7A then c - 0x20 else c)
      else (let cu = toUpperUnit u c in if cu < 0x80 then c else cu))"

definition ciChar :: "'a unicode_scheme \<Rightarrow> jschar \<Rightarrow> jschar \<Rightarrow> bool" where
  "ciChar u x c \<longleftrightarrow> canonicalize u c = canonicalize u x"

definition ciClass :: "'a unicode_scheme \<Rightarrow> jschar list \<Rightarrow> jschar \<Rightarrow> bool" where
  "ciClass u ms c \<longleftrightarrow> list_ex (\<lambda>m. canonicalize u c = canonicalize u m) ms"

definition isDigit :: "jschar \<Rightarrow> bool" where
  "isDigit c \<longleftrightarrow> 0x30 \<le> c \<and> c \<le> 0x39"

text \<open>The SyntaxCharacter of the pattern grammar: \<^verbatim>\<open>^ $ \ . * + ? ( ) [ ] { } |\<close>.\<close>

definition isSyntaxCharacter :: "jschar \<Rightarrow> bool" where
  "isSyntaxCharacter c \<longleftrightarrow>
     c = 0x5E \<or> c = 0x24 \<or> c = 0x5C \<or> c = 0x2E \<or> c = 0x2A \<or> c = 0x2B \<or> c = 0x3F \<or>
     c = 0x28 \<or> c = 0x29 \<or> c = 0x5B \<or> c = 0x5D \<or> c = 0x7B \<or> c = 0x7D \<or> c = 0x7C"

text \<open>
  An escape \<open>\e\<close>: \<open>\s\<close>, \<open>\d\<close>, or an escaped syntax character, which stands for
  itself. Case folding changes neither \<open>\s\<close> nor \<open>\d\<close> (no other character has a
  whitespace or a digit as its upper case), so the two classes are the plain ones.
\<close>

definition escapeAtom :: "'a unicode_scheme \<Rightarrow> jschar \<Rightarrow> (jschar \<Rightarrow> bool) option" where
  "escapeAtom u e =
     (if e = 0x73 then Some isWhiteSpace
      else if e = 0x64 then Some isDigit
      else if isSyntaxCharacter e then Some (ciChar u e)
      else None)"

definition flush :: "(jschar \<Rightarrow> bool) option \<Rightarrow> item list" where
  "flush pend = (case pend of None \<Rightarrow> [] | Some p \<Rightarrow> [One p])"

text \<open>
  \<open>new RegExp(pattern, 'i')\<close> on the patterns that the sources build: literal characters,
  escapes, a character class of plain members (a \<open>-\<close> only as its last member), and the
  quantifiers \<open>*\<close>, \<open>+\<close>, \<open>?\<close>. \<open>pend\<close> is the atom just read, which a quantifier may
  follow; \<open>cls\<close> holds the members read so far inside \<open>[...]\<close>. \<open>None\<close> is a pattern that
  is rejected (a SyntaxError, caught by the callers) or outside this fragment.
\<close>

fun parseFrom ::
  "'a unicode_scheme \<Rightarrow> (jschar \<Rightarrow> bool) option \<Rightarrow> jschar list option \<Rightarrow> jsstring \<Rightarrow>
     item list option" where
  "parseFrom u pend None [] = Some (flush pend)"
| "parseFrom u pend (Some ms) [] = None"
| "parseFrom u pend (Some ms) (c # cs) =
     (if c = 0x5D then parseFrom u (Some (ciClass u ms)) None cs
      else if c = 0x5C \<or> (c = 0x5E \<and> ms = []) then None
      else if c = 0x2D \<and> (case cs of [] \<Rightarrow> True | d # ds \<Rightarrow> d \<noteq> 0x5D) then None
      else parseFrom u pend (Some (ms @ [c])) cs)"
| "parseFrom u pend None (c # cs) =
     (if c = 0x2A then
        (case pend of None \<Rightarrow> None
         | Some p \<Rightarrow> map_option ((#) (Star p)) (parseFrom u None None cs))
      else if c = 0x2B then
        (case pend of None \<Rightarrow> None
         | Some p \<Rightarrow> map_option ((#) (Plus p)) (parseFrom u None None cs))
      else if c = 0x3F then
        (case pend of None \<Rightarrow> None
         | Some p \<Rightarrow> map_option ((#) (Opt p)) (parseFrom u None None cs))
      else if c = 0x5C then
        (case cs of [] \<Rightarrow> None
         | e # rest \<Rightarrow>
             (case escapeAtom u e of None \<Rightarrow> None
              | Some p \<Rightarrow> map_option ((@) (flush pend)) (parseFrom u (Some p) None rest)))
      else if c = 0x5B then map_option ((@) (flush pend)) (parseFrom u None (Some []) cs)
      else if isSyntaxCharacter c then None
      else map_option ((@) (flush pend)) (parseFrom u (Some (ciChar u c)) None cs))"

text \<open>A compiled pattern: whether it starts with \<open>^\<close>, and its items.\<close>

definition parseRegExp :: "'a unicode_scheme \<Rightarrow> jsstring \<Rightarrow> (bool \<times> item list) option" where
  "parseRegExp u src =
     (case src of
        [] \<Rightarrow> Some (False, [])
      | c # cs \<Rightarrow>
          if c = 0x5E then map_option (Pair True) (parseFrom u None None cs)
          else map_option (Pair False) (parseFrom u None None (c # cs)))"

text \<open>
  \<open>s.match(re)\<close> for a pattern without the \<open>g\<close> flag: the text of the leftmost match.
  A pattern that starts with \<open>^\<close> (and has no \<open>m\<close> flag) matches at the start only.
\<close>

fun searchSeq :: "item list \<Rightarrow> jsstring \<Rightarrow> jsstring option" where
  "searchSeq r [] = map_option (\<lambda>n. []) (matchSeq r [])"
| "searchSeq r (c # cs) =
     (case matchSeq r (c # cs) of Some n \<Rightarrow> Some (take n (c # cs)) | None \<Rightarrow> searchSeq r cs)"

definition regexMatch :: "bool \<times> item list \<Rightarrow> jsstring \<Rightarrow> jsstring option" where
  "regexMatch re s =
     (if fst re then map_option (\<lambda>n. take n s) (matchSeq (snd re) s) else searchSeq (snd re) s)"

section \<open>Book settings: prefix cleanup (BookSettingsModal)\<close>

text \<open>\<open>escapeRegExp\<close>: a backslash before each of \<^verbatim>\<open>. * + ? ^ $ { } ( ) | [ ] \\<close>.\<close>

definition isRegExpSpecial :: "jschar \<Rightarrow> bool" where
  "isRegExpSpecial c \<longleftrightarrow>
     c = 0x2E \<or> c = 0x2A \<or> c = 0x2B \<or> c = 0x3F \<or> c = 0x5E \<or> c = 0x24 \<or> c = 0x7B \<or>
     c = 0x7D \<or> c = 0x28 \<or> c = 0x29 \<or> c = 0x7C \<or> c = 0x5B \<or> c = 0x5D \<or> c = 0x5C"

definition escapeRegExp :: "jsstring \<Rightarrow> jsstring" where
  "escapeRegExp s = concat (map (\<lambda>c. if isRegExpSpecial c then [0x5C, c] else [c]) s)"

definition HASH :: jschar where
  "HASH = 0x23"

text \<open>The pattern \<^verbatim>\<open>/#/\<close> and the replacement text \<^verbatim>\<open>\s*\d+[.:-]?\s*\<close>.\<close>

definition hashRegex :: "item list list" where
  "hashRegex = [[One (\<lambda>c. c = HASH)]]"

definition numberPattern :: jsstring where
  "numberPattern = ascii [CHR 0x5C, CHR ''s'', CHR ''*'', CHR 0x5C, CHR ''d'', CHR ''+'', CHR ''['',
     CHR ''.'', CHR '':'', CHR ''-'', CHR '']'', CHR ''?'', CHR 0x5C, CHR ''s'', CHR ''*'']"

definition removalRegex :: "'a unicode_scheme \<Rightarrow> jsstring \<Rightarrow> (bool \<times> item list) option" where
  "removalRegex u trimmedPrefix =
     (if HASH \<in> set trimmedPrefix
      then parseRegExp u (0x5E # replaceFirst hashRegex numberPattern (escapeRegExp trimmedPrefix))
      else None)"

definition startsWith :: "jsstring \<Rightarrow> jsstring \<Rightarrow> bool" where
  "startsWith s p \<longleftrightarrow> take (length p) s = p"

text \<open>The body of the \<open>map\<close> in \<open>handleSaveChanges\<close>: the new content of one chapter.\<close>

definition cleanContent :: "'a unicode_scheme \<Rightarrow> jsstring \<Rightarrow> jsstring \<Rightarrow> jsstring" where
  "cleanContent u trimmedPrefix originalContent =
     (let trimmedContent = trimStart originalContent;
          leadingWhitespaceLength = int (length originalContent) - int (length trimmedContent);
          leadingWhitespace = substring originalContent 0 leadingWhitespaceLength
      in case removalRegex u trimmedPrefix of
           Some re \<Rightarrow>
             (case regexMatch re trimmedContent of
                Some m0 \<Rightarrow>
                  if m0 \<noteq> []
                  then leadingWhitespace @
                       substring trimmedContent (int (length m0)) (int (length trimmedContent))
                  else originalContent
              | None \<Rightarrow> originalContent)
         | None \<Rightarrow>
             if startsWith (toLowerCase u trimmedContent) (toLowerCase u trimmedPrefix)
             then leadingWhitespace @
                  substring trimmedContent (int (length trimmedPrefix)) (int (length trimmedContent))
             else originalContent)"

definition handleSaveChanges ::
  "'a unicode_scheme \<Rightarrow> jsstring \<Rightarrow> Chapter list \<Rightarrow> Book \<Rightarrow> Book" where
  "handleSaveChanges u prefixToRemove editedChapters book =
     (let trimmedPrefix = trim prefixToRemove;
          finalChapters =
            (if trimmedPrefix \<noteq> []
             then map (\<lambda>chapter. chapter\<lparr>content := cleanContent u trimmedPrefix (content chapter)\<rparr>)
                    editedChapters
             else editedChapters)
      in book\<lparr>chapters := finalChapters\<rparr>)"

text \<open>The part that the prefix pattern removes from a content (\<open>match[0]\<close>), if it matches.\<close>

definition removedPart :: "'a unicode_scheme \<Rightarrow> jsstring \<Rightarrow> jsstring \<Rightarrow> jsstring option" where
  "removedPart u trimmedPrefix originalContent =
     (case removalRegex u trimmedPrefix of
        Some re \<Rightarrow> regexMatch re (trimStart originalContent)
      | None \<Rightarrow> None)"

definition separatorClass :: "jschar list" where
  "separatorClass = [0x2E, 0x3A, 0x2D]"

definition numberItems :: "'a unicode_scheme \<Rightarrow> item list" where
  "numberItems u = [Star isWhiteSpace, Plus isDigit, Opt (ciClass u separatorClass), Star isWhiteSpace]"

definition literal :: "'a unicode_scheme \<Rightarrow> jschar \<Rightarrow> item" where
  "literal u x = One (ciChar u x)"

section \<open>The book table of the local database\<close>

text \<open>
  Modelled from the spec: the operations of a table (\<open>add\<close>, \<open>delete\<close>, \<open>put\<close>, \<open>update\<close>,
  \<open>clear\<close>, \<open>bulkAdd\<close>, \<open>transaction\<close>) are code of the Dexie library, which is not among
  the sources. The sources hold the declaration of the database only (\<open>services/db\<close>:
  \<open>new Dexie('ebookReaderDB')\<close> with \<open>stores({ books: 'id, title, author' })\<close>): one table,
  \<open>books\<close>, whose primary key is the property \<open>id\<close> of the record. The table is a map from
  keys to records. Following the spec, \<open>add\<close> fails when the key exists, \<open>delete\<close> of an
  absent key is no error, \<open>put\<close> replaces the whole record, \<open>update\<close> changes the record when
  it exists, \<open>clear\<close> empties the table, \<open>bulkAdd\<close> adds every record and fails when one of
  them has no key or a key that exists, and a transaction whose body fails leaves the table as
  it was. Every write can also fail for a reason outside the program (the flag \<open>ok\<close>).
  \<open>None\<close> is a rejected promise.
\<close>

type_synonym ('k, 'r) table = "'k \<rightharpoonup> 'r"

definition dbAdd :: "'k \<Rightarrow> 'r \<Rightarrow> bool \<Rightarrow> ('k, 'r) table \<Rightarrow> ('k, 'r) table option" where
  "dbAdd k r ok t = (if ok \<and> t k = None then Some (t(k \<mapsto> r)) else None)"

definition dbDelete :: "'k \<Rightarrow> bool \<Rightarrow> ('k, 'r) table \<Rightarrow> ('k, 'r) table option" where
  "dbDelete k ok t = (if ok then Some (t(k := None)) else None)"

definition dbPut :: "'k \<Rightarrow> 'r \<Rightarrow> bool \<Rightarrow> ('k, 'r) table \<Rightarrow> ('k, 'r) table option" where
  "dbPut k r ok t = (if ok then Some (t(k \<mapsto> r)) else None)"

definition dbUpdate :: "'k \<Rightarrow> ('r \<Rightarrow> 'r) \<Rightarrow> bool \<Rightarrow> ('k, 'r) table \<Rightarrow> ('k, 'r) table option" where
  "dbUpdate k change ok t =
     (if ok then Some (case t k of None \<Rightarrow> t | Some r \<Rightarrow> t(k \<mapsto> change r)) else None)"

definition dbClear :: "bool \<Rightarrow> ('k, 'r) table \<Rightarrow> ('k, 'r) table option" where
  "dbClear ok t = (if ok then Some Map.empty else None)"

fun addAll :: "('r \<Rightarrow> 'k option) \<Rightarrow> 'r list \<Rightarrow> ('k, 'r) table \<Rightarrow> ('k, 'r) table option" where
  "addAll keyOf [] t = Some t"
| "addAll keyOf (r # rs) t =
     (case keyOf r of
        None \<Rightarrow> None
      | Some k \<Rightarrow> if t k = None then addAll keyOf rs (t(k \<mapsto> r)) else None)"

definition dbBulkAdd ::
  "('r \<Rightarrow> 'k option) \<Rightarrow> 'r list \<Rightarrow> bool \<Rightarrow> ('k, 'r) table \<Rightarrow> ('k, 'r) table option" where
  "dbBulkAdd keyOf rs ok t = (if ok then addAll keyOf rs t else None)"

section \<open>The book store (hooks/useBookStore.ts)\<close>

text \<open>
  The state of the hook is the in-memory list \<open>books\<close>; \<open>booksTable\<close> is the table of the
  database that its operations write, and \<open>consoleErrors\<close> what they have written with
  \<open>console.error\<close>. Each operation awaits the write inside \<open>try\<close> and calls \<open>setBooks\<close>
  after it; the \<open>catch\<close> only logs: \<open>FailedToAdd\<close> is the line
  \<open>Failed to add book to IndexedDB\<close>, \<open>FailedToDelete\<close> is
  \<open>Failed to delete book from IndexedDB\<close>, \<open>FailedToUpdate\<close> is
  \<open>Failed to update book in IndexedDB\<close>, and \<open>FailedToUpdatePosition\<close> is
  \<open>Failed to update book position in IndexedDB\<close>.
\<close>

datatype storeError = FailedToAdd | FailedToDelete | FailedToUpdate | FailedToUpdatePosition

record bookStore =
  books :: "Book list"
  booksTable :: "(jsstring, Book) table"
  consoleErrors :: "storeError list"

definition addBook :: "Book \<Rightarrow> bool \<Rightarrow> bookStore \<Rightarrow> bookStore" where
  "addBook newBook ok st =
     (case dbAdd (book_id newBook) newBook ok (booksTable st) of
        Some t \<Rightarrow> st\<lparr>booksTable := t, books := books st @ [newBook]\<rparr>
      | None \<Rightarrow> st\<lparr>consoleErrors := consoleErrors st @ [FailedToAdd]\<rparr>)"

definition deleteBook :: "jsstring \<Rightarrow> bool \<Rightarrow> bookStore \<Rightarrow> bookStore" where
  "deleteBook bookId ok st =
     (case dbDelete bookId ok (booksTable st) of
        Some t \<Rightarrow> st\<lparr>booksTable := t, books := filter (\<lambda>book. book_id book \<noteq> bookId) (books st)\<rparr>
      | None \<Rightarrow> st\<lparr>consoleErrors := consoleErrors st @ [FailedToDelete]\<rparr>)"

definition updateBook :: "Book \<Rightarrow> bool \<Rightarrow> bookStore \<Rightarrow> bookStore" where
  "updateBook updatedBook ok st =
     (case dbPut (book_id updatedBook) updatedBook ok (booksTable st) of
        Some t \<Rightarrow>
          st\<lparr>booksTable := t,
             books := map (\<lambda>book. if book_id book = book_id updatedBook then updatedBook else book)
                        (books st)\<rparr>
      | None \<Rightarrow> st\<lparr>consoleErrors := consoleErrors st @ [FailedToUpdate]\<rparr>)"

definition updateBookPosition :: "jsstring \<Rightarrow> Position \<Rightarrow> bool \<Rightarrow> bookStore \<Rightarrow> bookStore" where
  "updateBookPosition bookId position ok st =
     (case dbUpdate bookId (\<lambda>book. book\<lparr>lastPosition := Some position\<rparr>) ok (booksTable st) of
        Some t \<Rightarrow>
          st\<lparr>booksTable := t,
             books := map (\<lambda>book. if book_id book = bookId
                                   then book\<lparr>lastPosition := Some position\<rparr> else book)
                        (books st)\<rparr>
      | None \<Rightarrow> st\<lparr>consoleErrors := consoleErrors st @ [FailedToUpdatePosition]\<rparr>)"

section \<open>Backup payloads and restore (SettingsPage, UserSwitcherModal)\<close>

text \<open>
  What \<open>restoreBackup\<close> resolves to is the value that \<open>response.json()\<close> has parsed from
  whatever the server sent. An object is an association list, read with \<open>map_of\<close>. The
  numbers of a parsed value are the numbers of the engine (doubles): they are the type
  parameter \<open>'n\<close>, of which only the zero is used (a number is falsy when it is zero), so that
  two number texts that parse to one double are one value here, and a number that is not an
  integer is a value as any other. The two zeros of a double are one number, as they are for
  the test of truthiness and as keys of the database.
\<close>

datatype 'n json =
    JNull
  | JBool bool
  | JNum 'n
  | JStr jsstring
  | JArr "'n json list"
  | JObj "(jsstring \<times> 'n json) list"

text \<open>\<open>data.f\<close> for a value that is not \<open>null\<close>: \<open>None\<close> is \<open>undefined\<close>.\<close>

definition field :: "'n json \<Rightarrow> jsstring \<Rightarrow> 'n json option" where
  "field d f = (case d of JObj fs \<Rightarrow> map_of fs f | _ \<Rightarrow> None)"

definition truthy :: "('n::zero) json option \<Rightarrow> bool" where
  "truthy v =
     (case v of
        None \<Rightarrow> False
      | Some JNull \<Rightarrow> False
      | Some (JBool b) \<Rightarrow> b
      | Some (JNum n) \<Rightarrow> n \<noteq> 0
      | Some (JStr s) \<Rightarrow> s \<noteq> []
      | Some (JArr xs) \<Rightarrow> True
      | Some (JObj fs) \<Rightarrow> True)"

definition isArray :: "'n json option \<Rightarrow> bool" where
  "isArray v = (case v of Some (JArr xs) \<Rightarrow> True | _ \<Rightarrow> False)"

text \<open>\<open>typeof v === 'object'\<close>: objects, arrays and \<open>null\<close>.\<close>

definition typeofObject :: "'n json option \<Rightarrow> bool" where
  "typeofObject v =
     (case v of Some (JObj fs) \<Rightarrow> True | Some (JArr xs) \<Rightarrow> True | Some JNull \<Rightarrow> True | _ \<Rightarrow> False)"

text \<open>
  The key of a record in the \<open>books\<close> table is its \<open>id\<close>, which must be a valid key: a
  string, a number, or an array of valid keys (a parsed number is never \<open>NaN\<close>). Two keys are
  the same key when they are the same value.
\<close>

fun validKey :: "'n json \<Rightarrow> bool" where
  "validKey (JStr s) = True"
| "validKey (JNum n) = True"
| "validKey (JArr xs) = list_all validKey xs"
| "validKey j = False"

definition recordKey :: "'n json \<Rightarrow> 'n json option" where
  "recordKey r =
     (case field r (ascii ''id'') of
        Some k \<Rightarrow> if validKey k then Some k else None
      | None \<Rightarrow> None)"

text \<open>
  The state that a restore changes: the \<open>books\<close> table and the settings entry of the local
  storage (\<open>None\<close> when nothing is saved).
\<close>

record 'n device =
  storedBooks :: "('n json, 'n json) table"
  storedSettings :: "'n json option"

datatype restoreError = FetchFailed jsstring | NotAnObject | InvalidFormat | DatabaseFailed

datatype restoreStatus = RestoreSuccess | RestoreError restoreError

text \<open>
  The transaction of both flows: \<open>clear\<close>, then \<open>bulkAdd(data.books)\<close>. A value that is
  not an array has no records to add, and the bulk insert rejects.
\<close>

definition replaceBooks ::
  "'n json option \<Rightarrow> bool \<Rightarrow> ('n json, 'n json) table \<Rightarrow> ('n json, 'n json) table option" where
  "replaceBooks bs ok t =
     (case dbClear ok t of
        None \<Rightarrow> None
      | Some t1 \<Rightarrow>
          (case bs of
             Some (JArr rs) \<Rightarrow> dbBulkAdd recordKey rs ok t1
           | _ \<Rightarrow> None))"

text \<open>
  \<open>saveSettings(data.settings)\<close>: writes the entry; a failure of the local storage is logged
  only. The value written is \<open>data.settings\<close>, which is present whenever one of the tests
  below has passed.
\<close>

definition saveSettings :: "'n json option \<Rightarrow> bool \<Rightarrow> 'n device \<Rightarrow> 'n device" where
  "saveSettings s storageOk dev = (if storageOk then dev\<lparr>storedSettings := s\<rparr> else dev)"

text \<open>
  \<open>handleRestore\<close> of the Settings view. \<open>fetched\<close> is the outcome of \<open>restoreBackup\<close>
  (\<open>Inl\<close> its error message); reading a property of \<open>null\<close> throws. The status set for
  the backup stands for the messages shown.
\<close>

definition settingsAccepts :: "'n json \<Rightarrow> bool" where
  "settingsAccepts d \<longleftrightarrow>
     isArray (field d (ascii ''books'')) \<and> typeofObject (field d (ascii ''settings'')) \<and>
     field d (ascii ''settings'') \<noteq> Some JNull"

definition handleRestoreSettings ::
  "jsstring + 'n json \<Rightarrow> bool \<Rightarrow> bool \<Rightarrow> 'n device \<Rightarrow> 'n device \<times> restoreStatus" where
  "handleRestoreSettings fetched dbOk storageOk dev =
     (case fetched of
        Inl msg \<Rightarrow> (dev, RestoreError (FetchFailed msg))
      | Inr d \<Rightarrow>
          if d = JNull then (dev, RestoreError NotAnObject)
          else if settingsAccepts d then
            (case replaceBooks (field d (ascii ''books'')) dbOk (storedBooks dev) of
               None \<Rightarrow> (dev, RestoreError DatabaseFailed)
             | Some t \<Rightarrow>
                 (saveSettings (field d (ascii ''settings'')) storageOk (dev\<lparr>storedBooks := t\<rparr>),
                  RestoreSuccess))
          else (dev, RestoreError InvalidFormat))"

text \<open>\<open>handleRestore\<close> of the Profile Switcher: the test is \<open>data.books && data.settings\<close>.\<close>

definition switcherAccepts :: "('n::zero) json \<Rightarrow> bool" where
  "switcherAccepts d \<longleftrightarrow> truthy (field d (ascii ''books'')) \<and> truthy (field d (ascii ''settings''))"

definition handleRestoreSwitcher ::
  "jsstring + ('n::zero) json \<Rightarrow> bool \<Rightarrow> bool \<Rightarrow> 'n device \<Rightarrow> 'n device \<times> restoreStatus" where
  "handleRestoreSwitcher fetched dbOk storageOk dev =
     (case fetched of
        Inl msg \<Rightarrow> (dev, RestoreError (FetchFailed msg))
      | Inr d \<Rightarrow>
          if d = JNull then (dev, RestoreError NotAnObject)
          else if switcherAccepts d then
            (case replaceBooks (field d (ascii ''books'')) dbOk (storedBooks dev) of
               None \<Rightarrow> (dev, RestoreError DatabaseFailed)
             | Some t \<Rightarrow>
                 (saveSettings (field d (ascii ''settings'')) storageOk (dev\<lparr>storedBooks := t\<rparr>),
                  RestoreSuccess))
          else (dev, RestoreError InvalidFormat))"

text \<open>Auxiliary notions for the statements about the store and the restore.\<close>

definition payloadIds :: "'n json list \<Rightarrow> 'n json set" where
  "payloadIds rs = {k. \<exists>r\<in>set rs. recordKey r = Some k}"

definition sampleBook :: Book where
  "sampleBook = \<lparr>book_id = ascii ''b1'', book_title = ascii ''T'', author = None,
     coverImage = None, chapters = [], lastPosition = None\<rparr>"

definition emptyStore :: bookStore where
  "emptyStore = \<lparr>books = [], booksTable = Map.empty, consoleErrors = []\<rparr>"

definition sampleRecord :: "jsstring \<Rightarrow> int json" where
  "sampleRecord i = JObj [(ascii ''id'', JStr i), (ascii ''title'', JStr (ascii ''T''))]"

definition sampleDevice :: "int device" where
  "sampleDevice =
     \<lparr>storedBooks = [JStr (ascii ''old'') \<mapsto> sampleRecord (ascii ''old'')], storedSettings = None\<rparr>"

section \<open>File import (services/parser.ts)\<close>

text \<open>
  \<open>generateId\<close> reads the clock and a random number; the model takes the ids from a
  supply \<open>gen\<close>, whose \<open>n\<close>-th value is the result of the \<open>n\<close>-th call.
\<close>

definition NEWLINE :: jschar where
  "NEWLINE = 0x0A"

text \<open>\<open>s.split(sep)\<close> for a one-character separator, and \<open>lines.join('\n')\<close>.\<close>

fun splitOn :: "jschar \<Rightarrow> jsstring \<Rightarrow> jsstring list" where
  "splitOn sep [] = [[]]"
| "splitOn sep (c # cs) =
     (if c = sep then [] # splitOn sep cs
      else (case splitOn sep cs of [] \<Rightarrow> [[c]] | l # ls \<Rightarrow> (c # l) # ls))"

definition splitLines :: "jsstring \<Rightarrow> jsstring list" where
  "splitLines s = splitOn NEWLINE s"

fun joinLines :: "jsstring list \<Rightarrow> jsstring" where
  "joinLines [] = []"
| "joinLines [l] = l"
| "joinLines (l # m # ls) = l @ NEWLINE # joinLines (m # ls)"

text \<open>The decimal digits of a number, for \<^verbatim>\<open>`Chapter ${index + 1}`\<close>.\<close>

fun decimal :: "nat \<Rightarrow> jsstring" where
  "decimal n = (if n < 10 then [0x30 + word_of_nat n] else decimal (n div 10) @ [0x30 + word_of_nat (n mod 10)])"

text \<open>
  \<open>JUNK_TITLE_REGEX\<close>, the pattern
  \<^verbatim>\<open>/^Ch\u01b0a x\u00e1c \u0111\u1ecbnh( Ch\u01b0\u01a1ng \d+)?:?\s*/i\<close> (the letters outside
  ASCII are written as escapes here), and \<open>title.replace\<close> with it: the pattern is anchored
  at the start, so the only possible match is a prefix.
\<close>

definition junkPhrase :: jsstring where
  "junkPhrase = ascii ''Ch'' @ [0x1B0] @ ascii ''a x'' @ [0xE1] @ ascii ''c '' @ [0x111, 0x1ECB] @ ascii ''nh''"

definition junkChapter :: jsstring where
  "junkChapter = ascii '' Ch'' @ [0x1B0, 0x1A1] @ ascii ''ng ''"

definition JUNK_TITLE_REGEX :: "'a unicode_scheme \<Rightarrow> item list" where
  "JUNK_TITLE_REGEX u =
     map (literal u) junkPhrase @
     [OptG (map (literal u) junkChapter @ [Plus isDigit]), Opt (\<lambda>c. c = 0x3A), Star isWhiteSpace]"

definition removeJunk :: "'a unicode_scheme \<Rightarrow> jsstring \<Rightarrow> jsstring" where
  "removeJunk u title =
     (case matchSeq (JUNK_TITLE_REGEX u) title of Some n \<Rightarrow> drop n title | None \<Rightarrow> title)"

definition cleanTitle :: "'a unicode_scheme \<Rightarrow> jsstring \<Rightarrow> nat \<Rightarrow> jsstring" where
  "cleanTitle u title index =
     (let cleanedTitle = trim (removeJunk u title)
      in if cleanedTitle = [] then ascii ''Chapter '' @ decimal (index + 1) else cleanedTitle)"

text \<open>\<open>file.name.replace(/\.[^/.]+$/, "")\<close>: the file name without its extension.\<close>

definition extensionRegex :: "item list list" where
  "extensionRegex = [[One (\<lambda>c. c = 0x2E), Plus (\<lambda>c. c \<noteq> 0x2F \<and> c \<noteq> 0x2E), Eoi]]"

definition stripExtension :: "jsstring \<Rightarrow> jsstring" where
  "stripExtension name = replaceFirst extensionRegex [] name"

text \<open>
  The heuristic for a repeating header: the first non-blank line of the first two chapters,
  when it is the same line and longer than five code units.
\<close>

definition getFirstContentLine :: "jsstring \<Rightarrow> jsstring option" where
  "getFirstContentLine c = map_option trim (find (\<lambda>line. length (trim line) > 0) (splitLines c))"

definition repeatingHeaderOf :: "Chapter list \<Rightarrow> jsstring option" where
  "repeatingHeaderOf rawChapters =
     (if length rawChapters > 1 then
        (let firstLine1 = getFirstContentLine (content (rawChapters ! 0));
             firstLine2 = getFirstContentLine (content (rawChapters ! 1))
         in case firstLine1 of
              None \<Rightarrow> None
            | Some l \<Rightarrow> if l \<noteq> [] \<and> length l > 5 \<and> firstLine1 = firstLine2 then Some l else None)
      else None)"

definition contentLines :: "jsstring \<Rightarrow> jsstring list" where
  "contentLines c = filter (\<lambda>l. length l > 0) (map trim (splitLines c))"

definition dropHeader :: "jsstring option \<Rightarrow> jsstring list \<Rightarrow> jsstring list" where
  "dropHeader repeatingHeader lines =
     (case repeatingHeader of
        Some h \<Rightarrow> if lines \<noteq> [] \<and> hd lines = h then tl lines else lines
      | None \<Rightarrow> lines)"

definition dropTitle :: "'a unicode_scheme \<Rightarrow> jsstring \<Rightarrow> jsstring list \<Rightarrow> jsstring list" where
  "dropTitle u title lines =
     (if lines \<noteq> [] \<and> toLowerCase u (hd lines) = toLowerCase u title then tl lines else lines)"

subsection \<open>Plain text\<close>

text \<open>
  The pattern \<^verbatim>\<open>/(?=^Chapter \d+|CHAPTER \d+)/im\<close>: a lookahead with two alternatives, the
  first one at the start of a line. \<open>atLineStart\<close> tells whether the position is the start
  of the text or follows a line terminator.
\<close>

definition isLineTerminator :: "jschar \<Rightarrow> bool" where
  "isLineTerminator c \<longleftrightarrow> c = 0x0A \<or> c = 0x0D \<or> c = 0x2028 \<or> c = 0x2029"

definition chapterAhead :: "'a unicode_scheme \<Rightarrow> bool \<Rightarrow> jsstring \<Rightarrow> bool" where
  "chapterAhead u atLineStart rest \<longleftrightarrow>
     (atLineStart \<and> matchSeq (map (literal u) (ascii ''Chapter '') @ [Plus isDigit]) rest \<noteq> None) \<or>
     matchSeq (map (literal u) (ascii ''CHAPTER '') @ [Plus isDigit]) rest \<noteq> None"

text \<open>
  \<open>s.split(re)\<close> for a pattern that matches the empty string only: the text is cut at every
  position, other than the start of a piece, where the lookahead holds. \<open>cur\<close> is the piece
  being read.
\<close>

fun splitAhead :: "(bool \<Rightarrow> jsstring \<Rightarrow> bool) \<Rightarrow> jsstring \<Rightarrow> bool \<Rightarrow> jsstring \<Rightarrow> jsstring list" where
  "splitAhead ahead cur atLineStart [] = [cur]"
| "splitAhead ahead cur atLineStart (c # cs) =
     (if cur \<noteq> [] \<and> ahead atLineStart (c # cs)
      then cur # splitAhead ahead [c] (isLineTerminator c) cs
      else splitAhead ahead (cur @ [c]) (isLineTerminator c) cs)"

definition splitChapters :: "'a unicode_scheme \<Rightarrow> jsstring \<Rightarrow> jsstring list" where
  "splitChapters u s = (if s = [] then [[]] else splitAhead (chapterAhead u) [] True s)"

datatype importError =
    FileEmpty
  | ReadFailed
  | EpubSetupFailed
  | CorruptedOrDrm
  | MobiUnsupported
  | UnsupportedType jsstring

definition txtParts :: "'a unicode_scheme \<Rightarrow> jsstring \<Rightarrow> jsstring list" where
  "txtParts u fileContent = filter (\<lambda>part. trim part \<noteq> []) (splitChapters u fileContent)"

definition rawTxtChapter :: "(nat \<Rightarrow> jsstring) \<Rightarrow> nat \<Rightarrow> jsstring \<Rightarrow> Chapter" where
  "rawTxtChapter gen n part =
     (case splitLines part of
        [] \<Rightarrow> \<lparr>chapter_id = gen n, chapter_title = [], content = []\<rparr>
      | title # lines \<Rightarrow>
          \<lparr>chapter_id = gen n, chapter_title = trim title, content = trim (joinLines lines)\<rparr>)"

text \<open>The \<open>forEach\<close> over the raw chapters: a chapter without a line left is not pushed.\<close>

fun txtChaptersFrom ::
  "'a unicode_scheme \<Rightarrow> jsstring \<Rightarrow> jsstring option \<Rightarrow> nat \<Rightarrow> Chapter list \<Rightarrow> Chapter list" where
  "txtChaptersFrom u bookTitle repeatingHeader index [] = []"
| "txtChaptersFrom u bookTitle repeatingHeader index (chapter # rest) =
     (let lines = dropTitle u bookTitle (dropHeader repeatingHeader (contentLines (content chapter)))
      in (if lines \<noteq> []
          then [chapter\<lparr>chapter_title := cleanTitle u (chapter_title chapter) index,
                        content := joinLines lines\<rparr>]
          else []) @ txtChaptersFrom u bookTitle repeatingHeader (index + 1) rest)"

definition txtChapters :: "'a unicode_scheme \<Rightarrow> (nat \<Rightarrow> jsstring) \<Rightarrow> jsstring \<Rightarrow> jsstring \<Rightarrow> Chapter list" where
  "txtChapters u gen bookTitle fileContent =
     (let parts = txtParts u fileContent in
      if length parts \<le> 1 then
        [\<lparr>chapter_id = gen 0, chapter_title = ascii ''Full Text'',
          content = trim (joinLines (dropTitle u bookTitle (contentLines fileContent)))\<rparr>]
      else
        (let rawChapters = map (\<lambda>(n, part). rawTxtChapter gen n part) (enumerate 0 parts)
         in txtChaptersFrom u bookTitle (repeatingHeaderOf rawChapters) 0 rawChapters))"

text \<open>
  \<open>parseTxt\<close>: \<open>fileText\<close> is what the reader gives, \<open>None\<close> when reading fails.
\<close>

definition parseTxt ::
  "'a unicode_scheme \<Rightarrow> (nat \<Rightarrow> jsstring) \<Rightarrow> jsstring \<Rightarrow> jsstring option \<Rightarrow> importError + Book" where
  "parseTxt u gen fileName fileText =
     (case fileText of
        None \<Rightarrow> Inl ReadFailed
      | Some fileContent \<Rightarrow>
          if fileContent = [] then Inl FileEmpty
          else
            (let bookTitle = stripExtension fileName;
                 chs = txtChapters u gen bookTitle fileContent
             in Inr \<lparr>book_id = gen (max 1 (length (txtParts u fileContent))),
                     book_title = stripExtension fileName, author = None, coverImage = None,
                     chapters = chs, lastPosition = None\<rparr>))"

subsection \<open>EPUB\<close>

text \<open>
  The EPUB library and the DOM are outside the repository; what they give is the input.
  For a spine item: \<open>loaded\<close> is the outcome of loading and serialising its content
  (\<open>Extracted t\<close> with the text \<open>t\<close> of the HTML without its style and script elements;
  every other outcome makes the chapter's promise reject), \<open>tocLabel\<close> the label of its
  entry in the table of contents, \<open>item_id\<close> its id. For the book: the title and the creator
  of the metadata, the cover as a data URL (absent when there is none or its extraction
  failed) and the spine.
\<close>

datatype loadOutcome = LoadRejected | LoadedNothing | LoadedUnsupported | Extracted jsstring

record spineItem =
  loaded :: loadOutcome
  tocLabel :: "jsstring option"
  item_id :: "jsstring option"

record epubBook =
  metaTitle :: "jsstring option"
  creator :: "jsstring option"
  cover :: "jsstring option"
  spine :: "spineItem list"

datatype epubFile = Unreadable | NoArrayBuffer | SetupThrows | Opened epubBook

text \<open>The promise of one spine item: \<open>None\<close> when it rejects.\<close>

definition epubChapterOf :: "'a unicode_scheme \<Rightarrow> (nat \<Rightarrow> jsstring) \<Rightarrow> nat \<Rightarrow> spineItem \<Rightarrow> Chapter option" where
  "epubChapterOf u gen index item =
     (case loaded item of
        Extracted t \<Rightarrow>
          Some \<lparr>chapter_id =
                   (case item_id item of
                      Some i \<Rightarrow> if i \<noteq> [] then i else gen index
                    | None \<Rightarrow> gen index),
                 chapter_title =
                   cleanTitle u (case tocLabel item of Some l \<Rightarrow> trim l | None \<Rightarrow> []) index,
                 content = trim t\<rparr>
      | _ \<Rightarrow> None)"

text \<open>
  \<open>Promise.allSettled\<close> and the \<open>forEach\<close> after it: the fulfilled chapters with a
  content, in the order of the spine.
\<close>

fun epubRawChapters :: "'a unicode_scheme \<Rightarrow> (nat \<Rightarrow> jsstring) \<Rightarrow> nat \<Rightarrow> spineItem list \<Rightarrow> Chapter list" where
  "epubRawChapters u gen index [] = []"
| "epubRawChapters u gen index (item # items) =
     (case epubChapterOf u gen index item of
        Some chapter \<Rightarrow> if content chapter \<noteq> [] then [chapter] else []
      | None \<Rightarrow> []) @ epubRawChapters u gen (index + 1) items"

definition cleanEpubChapter :: "'a unicode_scheme \<Rightarrow> jsstring \<Rightarrow> jsstring option \<Rightarrow> Chapter \<Rightarrow> Chapter" where
  "cleanEpubChapter u bookTitle repeatingHeader chapter =
     chapter\<lparr>content :=
       joinLines (dropTitle u (chapter_title chapter)
         (dropTitle u bookTitle (dropHeader repeatingHeader (contentLines (content chapter)))))\<rparr>"

definition epubChapters :: "'a unicode_scheme \<Rightarrow> (nat \<Rightarrow> jsstring) \<Rightarrow> jsstring \<Rightarrow> spineItem list \<Rightarrow> Chapter list" where
  "epubChapters u gen bookTitle items =
     (let rawChapters = epubRawChapters u gen 0 items
      in filter (\<lambda>c. content c \<noteq> [])
           (map (cleanEpubChapter u bookTitle (repeatingHeaderOf rawChapters)) rawChapters))"

definition epubTitle :: "jsstring \<Rightarrow> epubBook \<Rightarrow> jsstring" where
  "epubTitle fileName e =
     (case metaTitle e of
        Some t \<Rightarrow> if t \<noteq> [] then t else stripExtension fileName
      | None \<Rightarrow> stripExtension fileName)"

definition parseEpub ::
  "'a unicode_scheme \<Rightarrow> (nat \<Rightarrow> jsstring) \<Rightarrow> jsstring \<Rightarrow> epubFile \<Rightarrow> importError + Book" where
  "parseEpub u gen fileName file =
     (case file of
        Unreadable \<Rightarrow> Inl ReadFailed
      | NoArrayBuffer \<Rightarrow> Inl FileEmpty
      | SetupThrows \<Rightarrow> Inl EpubSetupFailed
      | Opened e \<Rightarrow>
          (let chs = epubChapters u gen (epubTitle fileName e) (spine e) in
           if length (spine e) > 0 \<and> length chs = 0 then Inl CorruptedOrDrm
           else Inr \<lparr>book_id = gen (length (spine e)), book_title = epubTitle fileName e,
                     author = creator e, coverImage = cover e, chapters = chs,
                     lastPosition = None\<rparr>))"

subsection \<open>Dispatch on the extension\<close>

text \<open>A file to import: its name, and what reading it as text and opening it as an EPUB give.\<close>

record importFile =
  fileName :: jsstring
  fileText :: "jsstring option"
  fileEpub :: epubFile

definition extensionOf :: "'a unicode_scheme \<Rightarrow> jsstring \<Rightarrow> jsstring" where
  "extensionOf u name = toLowerCase u (last (splitOn 0x2E name))"

definition parseFile :: "'a unicode_scheme \<Rightarrow> (nat \<Rightarrow> jsstring) \<Rightarrow> importFile \<Rightarrow> importError + Book" where
  "parseFile u gen file =
     (let extension = extensionOf u (fileName file) in
      if extension = ascii ''txt'' then parseTxt u gen (fileName file) (fileText file)
      else if extension = ascii ''epub'' then parseEpub u gen (fileName file) (fileEpub file)
      else if extension = ascii ''mobi'' then Inl MobiUnsupported
      else Inl (UnsupportedType extension))"

text \<open>Auxiliary notions for the statements about the import.\<close>

definition sampleIds :: "nat \<Rightarrow> jsstring" where
  "sampleIds n = ascii ''id'' @ decimal n"

definition emptyEpub :: importFile where
  "emptyEpub =
     \<lparr>fileName = ascii ''a.epub'', fileText = None,
      fileEpub = Opened \<lparr>metaTitle = None, creator = None, cover = None, spine = []\<rparr>\<rparr>"

definition headingsOnly :: importFile where
  "headingsOnly =
     \<lparr>fileName = ascii ''a.txt'',
      fileText = Some (ascii ''Chapter 1'' @ [NEWLINE] @ ascii ''Chapter 2''),
      fileEpub = Unreadable\<rparr>"

definition plainText :: importFile where
  "plainText = \<lparr>fileName = ascii ''a.txt'', fileText = Some (ascii ''hello''), fileEpub = Unreadable\<rparr>"

definition twoChaptersText :: jsstring where
  "twoChaptersText =
     ascii ''Chapter 1'' @ [NEWLINE] @ ascii ''ab'' @ [NEWLINE] @
     ascii ''Chapter 2'' @ [NEWLINE] @ ascii ''cd''"

definition twoChapters :: importFile where
  "twoChapters =
     \<lparr>fileName = ascii ''a.txt'', fileText = Some twoChaptersText, fileEpub = Unreadable\<rparr>"

text \<open>
  The raw chapters of a text with several parts, and whether a raw chapter has a line left
  after the cleanup of \<open>parseTxt\<close> (the repeating header and the book title removed).
\<close>

definition txtRawChapters :: "'a unicode_scheme \<Rightarrow> (nat \<Rightarrow> jsstring) \<Rightarrow> jsstring \<Rightarrow> Chapter list" where
  "txtRawChapters u gen fileContent =
     map (\<lambda>(n, part). rawTxtChapter gen n part) (enumerate 0 (txtParts u fileContent))"

definition keepsLine :: "'a unicode_scheme \<Rightarrow> jsstring \<Rightarrow> jsstring option \<Rightarrow> Chapter \<Rightarrow> bool" where
  "keepsLine u bookTitle repeatingHeader chapter \<longleftrightarrow>
     dropTitle u bookTitle (dropHeader repeatingHeader (contentLines (content chapter))) \<noteq> []"

definition sampleItem :: "loadOutcome \<Rightarrow> spineItem" where
  "sampleItem l = \<lparr>loaded = l, tocLabel = None, item_id = None\<rparr>"

definition loadsText :: "spineItem \<Rightarrow> bool" where
  "loadsText item = (case loaded item of Extracted t \<Rightarrow> trim t \<noteq> [] | _ \<Rightarrow> False)"

definition lostEpub :: epubBook where
  "lostEpub =
     \<lparr>metaTitle = Some (ascii ''MyBook''), creator = None, cover = None,
      spine = [sampleItem LoadRejected, sampleItem (Extracted (ascii ''MyBook''))]\<rparr>"

definition partialEpub :: epubBook where
  "partialEpub =
     \<lparr>metaTitle = Some (ascii ''MyBook''), creator = None, cover = None,
      spine = [sampleItem LoadRejected, sampleItem (Extracted (ascii ''hello'')),
               sampleItem (Extracted [SPACE])]\<rparr>"

section \<open>Facts about trimming\<close>

lemma trim_Nil: "trim [] = []"
  by (simp add: trim_def trimEnd_def trimStart_def)

lemma trimEnd_eq_Nil_iff: "trimEnd s = [] \<longleftrightarrow> (\<forall>c\<in>set s. isWhiteSpace c)"
  by (simp add: trimEnd_def dropWhile_eq_Nil_conv)

lemma set_trimStart: "set (trimStart s) \<subseteq> set s"
  by (simp add: trimStart_def set_dropWhileD subsetI)

lemma trim_eq_Nil_iff: "trim s = [] \<longleftrightarrow> (\<forall>c\<in>set s. isWhiteSpace c)"
proof
  assume "trim s = []"
  then have "\<forall>c\<in>set (trimStart s). isWhiteSpace c"
    using trimEnd_eq_Nil_iff [of "trimStart s"] by (simp only: trim_def)
  then have all: "\<forall>c\<in>set (dropWhile isWhiteSpace s). isWhiteSpace c"
    by (simp only: trimStart_def)
  have "dropWhile isWhiteSpace s = []"
  proof (rule ccontr)
    assume ne: "dropWhile isWhiteSpace s \<noteq> []"
    then have "\<not> isWhiteSpace (hd (dropWhile isWhiteSpace s))"
      by (rule hd_dropWhile)
    moreover have "hd (dropWhile isWhiteSpace s) \<in> set (dropWhile isWhiteSpace s)"
      using ne by simp
    ultimately show False using all by blast
  qed
  then show "\<forall>c\<in>set s. isWhiteSpace c"
    by (simp add: dropWhile_eq_Nil_conv)
next
  assume "\<forall>c\<in>set s. isWhiteSpace c"
  then have "dropWhile isWhiteSpace s = []"
    by (simp add: dropWhile_eq_Nil_conv)
  then show "trim s = []"
    by (simp only: trim_def trimStart_def trimEnd_def dropWhile.simps rev.simps)
qed

lemma length_trimEnd_le: "length (trimEnd s) \<le> length s"
  by (simp add: trimEnd_def length_dropWhile_le [of isWhiteSpace "rev s", simplified])

lemma length_trim_le: "length (trim s) \<le> length s"
proof -
  have "length (trim s) \<le> length (trimStart s)"
    unfolding trim_def by (rule length_trimEnd_le)
  also have "\<dots> \<le> length s"
    by (simp add: trimStart_def length_dropWhile_le)
  finally show ?thesis .
qed

lemma trimEnd_last: "trimEnd s \<noteq> [] \<Longrightarrow> \<not> isWhiteSpace (last (trimEnd s))"
proof -
  assume ne: "trimEnd s \<noteq> []"
  then have "dropWhile isWhiteSpace (rev s) \<noteq> []"
    by (simp add: trimEnd_def)
  then have "\<not> isWhiteSpace (hd (dropWhile isWhiteSpace (rev s)))"
    by (rule hd_dropWhile)
  moreover have "last (trimEnd s) = hd (dropWhile isWhiteSpace (rev s))"
    by (simp add: trimEnd_def last_rev)
  ultimately show ?thesis by simp
qed

lemma trimEnd_hd: "s \<noteq> [] \<Longrightarrow> \<not> isWhiteSpace (hd s) \<Longrightarrow> trimEnd s \<noteq> [] \<and> hd (trimEnd s) = hd s"
proof -
  assume ne: "s \<noteq> []" and nw: "\<not> isWhiteSpace (hd s)"
  obtain c cs where s: "s = c # cs" using ne by (cases s) auto
  have "dropWhile isWhiteSpace (rev cs @ [c]) = dropWhile isWhiteSpace (rev cs) @ [c]"
    using nw s by (simp add: dropWhile_append3)
  then have "trimEnd s = c # rev (dropWhile isWhiteSpace (rev cs))"
    by (simp add: trimEnd_def s)
  then show ?thesis by (simp add: s)
qed

lemma trim_hd: "trim s \<noteq> [] \<Longrightarrow> \<not> isWhiteSpace (hd (trim s))"
proof -
  assume ne: "trim s \<noteq> []"
  then have ts: "trimStart s \<noteq> []"
    by (auto simp: trim_def trimEnd_def)
  then have nw: "\<not> isWhiteSpace (hd (trimStart s))"
    unfolding trimStart_def by (rule hd_dropWhile)
  from trimEnd_hd [OF ts nw] show ?thesis
    using nw by (simp add: trim_def)
qed

lemma trim_last: "trim s \<noteq> [] \<Longrightarrow> \<not> isWhiteSpace (last (trim s))"
  unfolding trim_def by (rule trimEnd_last)

section \<open>Facts about the chunking loops\<close>

lemma blank_trim: "blank s \<longleftrightarrow> trim s = []"
  by (simp add: blank_def trim_eq_Nil_iff list_all_iff)

lemma tidy_trim: "trim s \<noteq> [] \<Longrightarrow> tidy (trim s)"
  by (simp add: tidy_def trim_hd trim_last)

lemma tidy_not_blank: "tidy c \<Longrightarrow> \<not> blank c"
proof -
  assume t: "tidy c"
  then have "hd c \<in> set c" and "\<not> isWhiteSpace (hd c)"
    by (simp_all add: tidy_def)
  then show ?thesis
    by (auto simp: blank_def list_all_iff)
qed

lemma not_blank_append: "\<not> blank b \<Longrightarrow> \<not> blank (a @ b @ c)"
  by (auto simp: blank_def list_all_iff)

lemma lastIndexFrom_cases:
  "- 1 \<le> lastIndexFrom s c k \<and> lastIndexFrom s c k \<le> int k"
  by (induction k) auto

lemma lastIndexFrom_absent: "c \<notin> set s \<Longrightarrow> lastIndexFrom s c k = - 1"
  by (induction k) auto

lemma lastIndexOf_le: "lastIndexOf s c pos \<le> max pos 0"
  using lastIndexFrom_cases [of s c "nat (min (max pos 0) (int (length s)))"]
  by (auto simp: lastIndexOf_def)

lemma lastIndexOf_absent: "c \<notin> set s \<Longrightarrow> lastIndexOf s c pos = - 1"
  by (simp add: lastIndexOf_def lastIndexFrom_absent)

lemma lastIndexOf_negative: "pos < 0 \<Longrightarrow> s \<noteq> [] \<Longrightarrow> hd s \<noteq> c \<Longrightarrow> lastIndexOf s c pos = - 1"
  by (cases s) (simp_all add: lastIndexOf_def)

lemma length_substring: "0 \<le> a \<Longrightarrow> a \<le> b \<Longrightarrow> int (length (substring s a b)) \<le> b - a"
  by (auto simp: substring_def Let_def min_def max_def)

lemma substring_nonpositive: "a \<le> 0 \<Longrightarrow> b \<le> 0 \<Longrightarrow> substring s a b = []"
  by (auto simp: substring_def Let_def min_def max_def)

lemma substring_hd:
  "s \<noteq> [] \<Longrightarrow> 1 \<le> b \<Longrightarrow> substring s 0 b \<noteq> [] \<and> hd (substring s 0 b) = hd s"
  by (cases s) (auto simp: substring_def Let_def min_def max_def take_Cons')

lemma sentenceLoop_tidy:
  "sentenceLoop m ss chunks cur = (chunks', cur') \<Longrightarrow> list_all tidy chunks \<Longrightarrow>
   cur = [] \<or> \<not> blank cur \<Longrightarrow> list_all tidy chunks' \<and> (cur' = [] \<or> \<not> blank cur')"
proof (induction ss arbitrary: chunks cur)
  case Nil
  then show ?case by simp
next
  case (Cons sentence rest)
  let ?ts = "trim sentence"
  show ?case
  proof (cases "?ts = []")
    case True
    then have "sentenceLoop m rest chunks cur = (chunks', cur')"
      using Cons.prems(1) by simp
    then show ?thesis
      using Cons.IH Cons.prems(2,3) by blast
  next
    case False
    then have nb: "\<not> blank ?ts"
      using tidy_trim tidy_not_blank by blast
    show ?thesis
    proof (cases "length cur > 0 \<and> int (length cur) + int (length ?ts) > m")
      case True
      then have "cur \<noteq> []" by auto
      then have "\<not> blank cur" using Cons.prems(3) by simp
      then have "tidy (trim cur)"
        by (simp add: blank_trim tidy_trim)
      then have a: "list_all tidy (chunks @ [trim cur])"
        using Cons.prems(2) by simp
      have b: "\<not> blank ([] @ ?ts @ [SPACE])"
        using nb by (rule not_blank_append)
      have "sentenceLoop m rest (chunks @ [trim cur]) ([] @ ?ts @ [SPACE]) = (chunks', cur')"
        using Cons.prems(1) True False by (simp add: Let_def)
      then show ?thesis
        using Cons.IH a b by blast
    next
      case F2: False
      have b: "\<not> blank (cur @ ?ts @ [SPACE])"
        using nb by (rule not_blank_append)
      have "sentenceLoop m rest chunks (cur @ ?ts @ [SPACE]) = (chunks', cur')"
        using Cons.prems(1) F2 False by (auto simp: Let_def)
      then show ?thesis
        using Cons.IH Cons.prems(2) b by blast
    qed
  qed
qed

lemma sentenceChunks_tidy: "list_all tidy (sentenceChunks m ss)"
proof -
  obtain chunks cur where r: "sentenceLoop m ss [] [] = (chunks, cur)"
    by (cases "sentenceLoop m ss [] []") auto
  then have "list_all tidy chunks"
    using sentenceLoop_tidy [of m ss "[]" "[]" chunks cur] by simp
  then show ?thesis
    by (simp add: sentenceChunks_def r tidy_trim)
qed

lemma fallbackLoop_tidy:
  assumes "fallbackLoop t m s acc = Some cs" and "list_all tidy acc"
  shows "list_all tidy cs"
proof -
  have "list_all tidy acc \<longrightarrow> list_all tidy cs"
  proof (rule fallbackLoop.raw_induct
      [where P = "\<lambda>t m s acc cs. list_all tidy acc \<longrightarrow> list_all tidy cs", OF _ assms(1)],
      goal_cases)
    case (1 f t m s acc cs)
    let ?e0 = "s + m"
    let ?e = "if ?e0 < int (length t)
              then (if s < lastIndexOf t SPACE ?e0 then lastIndexOf t SPACE ?e0 else ?e0)
              else int (length t)"
    let ?chunk = "trim (substring t s ?e)"
    let ?acc = "if ?chunk \<noteq> [] then acc @ [?chunk] else acc"
    show ?case
    proof (cases "s < int (length t)")
      case True
      with 1(2) have "f t m (?e + 1) ?acc = Some cs"
        by (simp only: Let_def if_True)
      then have "list_all tidy ?acc \<longrightarrow> list_all tidy cs"
        by (rule 1(1))
      moreover have "list_all tidy acc \<Longrightarrow> list_all tidy ?acc"
        by (simp add: tidy_trim)
      ultimately show ?thesis by blast
    next
      case False
      with 1(2) show ?thesis by simp
    qed
  qed
  with assms(2) show ?thesis by blast
qed

lemma fallbackLoop_step:
  "s < int (length t) \<Longrightarrow>
   fallbackLoop t m s acc = fallbackLoop t m (windowEnd t m s + 1) (pushChunk t m s acc)"
  by (subst fallbackLoop.simps) (simp add: Let_def windowEnd_def pushChunk_def)

lemma fallbackLoop_stop: "\<not> s < int (length t) \<Longrightarrow> fallbackLoop t m s acc = Some acc"
  by (subst fallbackLoop.simps) simp

lemma windowEnd_bounds:
  assumes "0 \<le> m" and "0 \<le> s" and "s < int (length t)"
  shows "s \<le> windowEnd t m s" and "windowEnd t m s \<le> s + m" and "windowEnd t m s \<le> int (length t)"
  using assms lastIndexOf_le [of t SPACE "s + m"]
  by (auto simp: windowEnd_def)

lemma pushChunk_bounded:
  assumes "0 \<le> m" and "0 \<le> s" and "s < int (length t)"
  shows "\<exists>new. pushChunk t m s acc = acc @ new \<and> list_all (bounded m) new"
proof -
  let ?c = "trim (substring t s (windowEnd t m s))"
  have "int (length ?c) \<le> int (length (substring t s (windowEnd t m s)))"
    by (simp add: length_trim_le)
  also have "\<dots> \<le> windowEnd t m s - s"
    using assms by (intro length_substring windowEnd_bounds) auto
  also have "\<dots> \<le> m"
    using windowEnd_bounds(2) [OF assms] by simp
  finally have len: "int (length ?c) \<le> m" .
  show ?thesis
  proof (cases "?c = []")
    case True
    then have "pushChunk t m s acc = acc @ []"
      by (simp add: pushChunk_def)
    then show ?thesis by (intro exI [of _ "[]"]) simp
  next
    case False
    then have "pushChunk t m s acc = acc @ [?c]" and "bounded m ?c"
      using len by (simp_all add: pushChunk_def bounded_def tidy_trim)
    then show ?thesis by (intro exI [of _ "[?c]"]) simp
  qed
qed

lemma fallbackLoop_total:
  assumes "0 \<le> m" and "0 \<le> s"
  shows "\<exists>new. fallbackLoop t m s acc = Some (acc @ new) \<and> list_all (bounded m) new"
  using assms(2)
proof (induction "nat (int (length t) - s)" arbitrary: s acc rule: less_induct)
  case less
  show ?case
  proof (cases "s < int (length t)")
    case False
    then have "fallbackLoop t m s acc = Some (acc @ [])"
      by (simp add: fallbackLoop_stop)
    then show ?thesis by (intro exI [of _ "[]"]) simp
  next
    case True
    have ge: "s \<le> windowEnd t m s"
      using assms(1) less.prems True by (rule windowEnd_bounds)
    obtain new1 where n1: "pushChunk t m s acc = acc @ new1" "list_all (bounded m) new1"
      using pushChunk_bounded [OF assms(1) less.prems True] by blast
    have "nat (int (length t) - (windowEnd t m s + 1)) < nat (int (length t) - s)"
      using ge True by simp
    moreover have "0 \<le> windowEnd t m s + 1"
      using ge less.prems by simp
    ultimately obtain new2 where n2:
      "fallbackLoop t m (windowEnd t m s + 1) (pushChunk t m s acc) = Some (pushChunk t m s acc @ new2)"
      "list_all (bounded m) new2"
      using less.hyps by blast
    have "fallbackLoop t m s acc = Some (acc @ (new1 @ new2))"
      using fallbackLoop_step [OF True] n1(1) n2(1) by simp
    moreover have "list_all (bounded m) (new1 @ new2)"
      using n1(2) n2(2) by simp
    ultimately show ?thesis by blast
  qed
qed

lemma fallbackLoop_negative:
  assumes "fallbackLoop t m s acc = Some cs"
  shows "\<not> (m < 0 \<and> t \<noteq> [] \<and> hd t \<noteq> SPACE \<and> s \<le> 0)"
proof (rule fallbackLoop.raw_induct
    [where P = "\<lambda>t m s acc cs. \<not> (m < 0 \<and> t \<noteq> [] \<and> hd t \<noteq> SPACE \<and> s \<le> 0)", OF _ assms],
    goal_cases)
  case (1 f t m s acc cs)
  show ?case
  proof
    assume a: "m < 0 \<and> t \<noteq> [] \<and> hd t \<noteq> SPACE \<and> s \<le> 0"
    then have lt: "s < int (length t)" by (cases t) auto
    have ls: "lastIndexOf t SPACE (s + m) = - 1"
      using a by (intro lastIndexOf_negative) auto
    let ?e0 = "s + m"
    let ?e = "if ?e0 < int (length t)
              then (if s < lastIndexOf t SPACE ?e0 then lastIndexOf t SPACE ?e0 else ?e0)
              else int (length t)"
    let ?chunk = "trim (substring t s ?e)"
    let ?acc = "if ?chunk \<noteq> [] then acc @ [?chunk] else acc"
    from 1(2) lt have "f t m (?e + 1) ?acc = Some cs"
      by (simp only: Let_def if_True)
    then have "\<not> (m < 0 \<and> t \<noteq> [] \<and> hd t \<noteq> SPACE \<and> ?e + 1 \<le> 0)"
      by (rule 1(1))
    moreover have "?e + 1 \<le> 0"
      using a lt ls by auto
    ultimately show False using a by blast
  qed
qed

lemma matchSeq_run_then_end:
  "noSentenceEnd s \<Longrightarrow>
   matchSeq (Star (\<lambda>c. \<not> isSentenceEnd c) # Plus isSentenceEnd # r) s = None"
  by (induction s) (simp_all add: noSentenceEnd_def)

lemma matchSeq_run_to_eoi:
  "noSentenceEnd s \<Longrightarrow> matchSeq [Star (\<lambda>c. \<not> isSentenceEnd c), Eoi] s = Some (length s)"
  by (induction s) (simp_all add: noSentenceEnd_def)

lemma matchAlts_sentence_whole:
  "noSentenceEnd s \<Longrightarrow> s \<noteq> [] \<Longrightarrow> matchAlts sentenceRegex s = Some (length s)"
proof (cases s)
  case Nil
  assume "s \<noteq> []"
  with Nil show ?thesis by simp
next
  case (Cons c cs)
  assume n: "noSentenceEnd s"
  then have c: "\<not> isSentenceEnd c" and cs: "noSentenceEnd cs"
    by (simp_all add: noSentenceEnd_def Cons)
  show ?thesis
    using c matchSeq_run_then_end [OF cs] matchSeq_run_to_eoi [OF cs]
    by (simp add: sentenceRegex_def Cons)
qed

lemma matchAllG_sentence_whole:
  assumes "noSentenceEnd s" and "s \<noteq> []"
  shows "matchAllG sentenceRegex s = [s]"
proof -
  obtain c cs where s: "s = c # cs" using assms(2) by (cases s) auto
  have e: "matchAlts sentenceRegex [] = None"
    by (simp add: sentenceRegex_def)
  have "matchAlts sentenceRegex (c # cs) = Some (length (c # cs))"
    using matchAlts_sentence_whole [OF assms] s by simp
  then show ?thesis
    by (simp add: s e)
qed

lemma windowEnd_first:
  assumes "1 \<le> m" and "t \<noteq> []"
  shows "1 \<le> windowEnd t m 0"
  using assms by (cases t) (auto simp: windowEnd_def)

lemma pushChunk_first:
  assumes "1 \<le> m" and "t \<noteq> []" and "\<not> isWhiteSpace (hd t)"
  shows "pushChunk t m 0 [] \<noteq> []"
proof -
  let ?sub = "substring t 0 (windowEnd t m 0)"
  have "?sub \<noteq> [] \<and> hd ?sub = hd t"
    using assms(2) windowEnd_first [OF assms(1,2)] by (rule substring_hd)
  then have "hd t \<in> set ?sub"
    by (metis list.set_sel(1))
  then have "trim ?sub \<noteq> []"
    using assms(3) by (auto simp: trim_eq_Nil_iff)
  then show ?thesis by (simp add: pushChunk_def)
qed

lemma fallbackLoop_first:
  assumes "1 \<le> m" and "t \<noteq> []" and "\<not> isWhiteSpace (hd t)"
  shows "\<exists>cs. fallbackLoop t m 0 [] = Some cs \<and> cs \<noteq> [] \<and> list_all (bounded m) cs"
proof -
  have lt: "(0::int) < int (length t)" using assms(2) by simp
  have m0: "0 \<le> m" using assms(1) by simp
  obtain new1 where n1: "pushChunk t m 0 [] = [] @ new1" "list_all (bounded m) new1"
    using pushChunk_bounded [OF m0 _ lt, of "[]"] by auto
  have "0 \<le> windowEnd t m 0 + 1"
    using windowEnd_first [OF assms(1,2)] by simp
  then obtain new2 where n2:
    "fallbackLoop t m (windowEnd t m 0 + 1) (pushChunk t m 0 []) = Some (pushChunk t m 0 [] @ new2)"
    "list_all (bounded m) new2"
    using fallbackLoop_total [OF m0] by blast
  have "fallbackLoop t m 0 [] = Some (pushChunk t m 0 [] @ new2)"
    using fallbackLoop_step [OF lt] n2(1) by simp
  moreover have "pushChunk t m 0 [] @ new2 \<noteq> []"
    using pushChunk_first [OF assms] by simp
  moreover have "list_all (bounded m) (pushChunk t m 0 [] @ new2)"
    using n1 n2(2) by simp
  ultimately show ?thesis by blast
qed

lemma windowEnd_no_space:
  assumes "SPACE \<notin> set t" and "0 \<le> s"
  shows "windowEnd t m s = (if s + m < int (length t) then s + m else int (length t))"
  using assms by (simp add: windowEnd_def lastIndexOf_absent)

lemma pushChunk_length:
  assumes "0 \<le> s" and "s \<le> windowEnd t m s"
  shows "int (length (concat (pushChunk t m s acc))) \<le> int (length (concat acc)) + (windowEnd t m s - s)"
proof -
  let ?c = "trim (substring t s (windowEnd t m s))"
  have "int (length ?c) \<le> int (length (substring t s (windowEnd t m s)))"
    by (simp add: length_trim_le)
  also have "\<dots> \<le> windowEnd t m s - s"
    using assms by (rule length_substring)
  finally have "int (length ?c) \<le> windowEnd t m s - s" .
  then show ?thesis
    using assms(2) by (auto simp: pushChunk_def)
qed

lemma fallbackLoop_count:
  assumes "0 \<le> m" and "SPACE \<notin> set t" and "0 \<le> s" and "s \<le> int (length t)"
  shows "\<exists>cs. fallbackLoop t m s acc = Some cs \<and>
           int (length (concat cs)) + (int (length t) - s) div (m + 1)
             \<le> int (length (concat acc)) + (int (length t) - s)"
  using assms(3,4)
proof (induction "nat (int (length t) - s)" arbitrary: s acc rule: less_induct)
  case less
  let ?len = "int (length t)"
  show ?case
  proof (cases "s < ?len")
    case False
    then have "s = ?len" using less.prems by simp
    moreover have "fallbackLoop t m s acc = Some acc"
      using False by (rule fallbackLoop_stop)
    ultimately show ?thesis by simp
  next
    case True
    show ?thesis
    proof (cases "s + m < ?len")
      case inner: True
      then have we: "windowEnd t m s = s + m"
        using windowEnd_no_space [OF assms(2) less.prems(1)] by simp
      have pl: "int (length (concat (pushChunk t m s acc))) \<le> int (length (concat acc)) + m"
        using pushChunk_length [OF less.prems(1), of t m acc] assms(1) we by simp
      have "nat (?len - (s + m + 1)) < nat (?len - s)"
        using assms(1) True by simp
      moreover have "0 \<le> s + m + 1" "s + m + 1 \<le> ?len"
        using assms(1) less.prems(1) inner by simp_all
      ultimately obtain cs where cs:
        "fallbackLoop t m (s + m + 1) (pushChunk t m s acc) = Some cs"
        "int (length (concat cs)) + (?len - (s + m + 1)) div (m + 1)
           \<le> int (length (concat (pushChunk t m s acc))) + (?len - (s + m + 1))"
        using less.hyps by blast
      have "?len - s = (?len - (s + m + 1)) + (m + 1)" by simp
      then have "(?len - s) div (m + 1) = (?len - (s + m + 1)) div (m + 1) + 1"
        using assms(1) by (metis add_pos_nonneg div_add_self2 less_numeral_extra(1) less_numeral_extra(3) add.commute)
      moreover have "fallbackLoop t m s acc = Some cs"
        using fallbackLoop_step [OF True] we cs(1) by simp
      ultimately show ?thesis
        using cs(2) pl by (intro exI [of _ cs]) simp
    next
      case inner: False
      then have we: "windowEnd t m s = ?len"
        using windowEnd_no_space [OF assms(2) less.prems(1)] by simp
      have pl: "int (length (concat (pushChunk t m s acc))) \<le> int (length (concat acc)) + (?len - s)"
        using pushChunk_length [OF less.prems(1), of t m acc] True we by simp
      have "fallbackLoop t m (?len + 1) (pushChunk t m s acc) = Some (pushChunk t m s acc)"
        by (rule fallbackLoop_stop) simp
      then have r: "fallbackLoop t m s acc = Some (pushChunk t m s acc)"
        using fallbackLoop_step [OF True] we by simp
      have "(?len - s) div (m + 1) = 0"
        using inner True by (intro div_pos_pos_trivial) simp_all
      then show ?thesis
        using r pl by (intro exI [of _ "pushChunk t m s acc"]) simp
    qed
  qed
qed

lemma splitTextIntoChunks_tidy:
  assumes "splitTextIntoChunks text m = Some cs"
  shows "list_all tidy cs"
proof (cases "trim text = []")
  case True
  then show ?thesis
    using assms by (auto simp: splitTextIntoChunks_def)
next
  case ne: False
  then have tt: "tidy (trim text)" by (rule tidy_trim)
  have tne: "text \<noteq> []" using ne by (auto simp: trim_Nil)
  show ?thesis
  proof (cases "int (length (trim text)) \<le> m")
    case True
    then show ?thesis
      using assms ne tne tt by (auto simp: splitTextIntoChunks_def Let_def)
  next
    case long: False
    let ?ss = "matchAllG sentenceRegex (trim text)"
    show ?thesis
    proof (cases "length ?ss > 1")
      case True
      then have "cs = (if sentenceChunks m ?ss = [] then [trim text] else sentenceChunks m ?ss)"
        using assms ne tne long by (simp add: splitTextIntoChunks_def Let_def split: if_splits)
      then show ?thesis
        using tt sentenceChunks_tidy [of m ?ss] by simp
    next
      case False
      then obtain chunks where c: "fallbackLoop (trim text) m 0 [] = Some chunks"
        and r: "cs = (if chunks = [] then [trim text] else chunks)"
        using assms ne tne long
        by (auto simp: splitTextIntoChunks_def Let_def split: if_splits option.splits)
      have "list_all tidy chunks"
        using c by (rule fallbackLoop_tidy) simp
      then show ?thesis
        using r tt by simp
    qed
  qed
qed

lemma splitTextIntoChunks_returns:
  assumes "0 \<le> m"
  shows "\<exists>cs. splitTextIntoChunks text m = Some cs"
proof -
  obtain new where "fallbackLoop (trim text) m 0 [] = Some ([] @ new)"
    using fallbackLoop_total [OF assms, of 0 "trim text" "[]"] by auto
  then show ?thesis
    by (simp add: splitTextIntoChunks_def Let_def)
qed

lemma splitTextIntoChunks_fallback:
  assumes "1 \<le> m" and "noSentenceEnd (trim text)" and "m < int (length (trim text))"
  shows "splitTextIntoChunks text m = fallbackLoop (trim text) m 0 []"
    and "\<exists>cs. fallbackLoop (trim text) m 0 [] = Some cs \<and> cs \<noteq> []"
proof -
  have ne: "trim text \<noteq> []" using assms(1,3) by auto
  then have tne: "text \<noteq> []" by (auto simp: trim_Nil)
  have ss: "matchAllG sentenceRegex (trim text) = [trim text]"
    using assms(2) ne by (rule matchAllG_sentence_whole)
  obtain cs where cs: "fallbackLoop (trim text) m 0 [] = Some cs" "cs \<noteq> []"
    using fallbackLoop_first [OF assms(1) ne trim_hd [OF ne]] by blast
  then show "\<exists>cs. fallbackLoop (trim text) m 0 [] = Some cs \<and> cs \<noteq> []" by blast
  show "splitTextIntoChunks text m = fallbackLoop (trim text) m 0 []"
    using ne tne assms(3) ss cs by (simp add: splitTextIntoChunks_def Let_def)
qed

lemma fallbackLoop_bounded:
  assumes "fallbackLoop (trim text) m 0 [] = Some cs"
  shows "list_all (bounded m) cs"
proof (cases "0 \<le> m")
  case True
  then show ?thesis
    using fallbackLoop_total [OF True, of 0 "trim text" "[]"] assms by auto
next
  case False
  show ?thesis
  proof (cases "trim text = []")
    case True
    then have "fallbackLoop (trim text) m 0 [] = Some []"
      by (simp add: fallbackLoop_stop)
    then show ?thesis using assms by simp
  next
    case ne: False
    then have "\<not> isWhiteSpace (hd (trim text))" by (rule trim_hd)
    then have "hd (trim text) \<noteq> SPACE"
      by (auto simp: isWhiteSpace_def SPACE_def)
    then show ?thesis
      using fallbackLoop_negative [OF assms] False ne by simp
  qed
qed


section \<open>Properties of the text chunking\<close>

text \<open>
  Claim C5. For every text and every \<open>maxLength\<close>: an empty or whitespace-only text gives
  the empty list; otherwise, when the trimmed text is no longer than \<open>maxLength\<close>, the result
  is the single chunk that equals the trimmed text. In both cases the call returns.
\<close>

theorem splitTextIntoChunks_short:
  "(trim text = [] \<longrightarrow> splitTextIntoChunks text maxLength = Some []) \<and>
   (trim text \<noteq> [] \<and> int (length (trim text)) \<le> maxLength \<longrightarrow>
      splitTextIntoChunks text maxLength = Some [trim text])"
  by (auto simp: splitTextIntoChunks_def Let_def trim_Nil)

theorem splitTextIntoChunks_short_witness:
  "trim (ascii ''  '') = [] \<and> splitTextIntoChunks (ascii ''  '') 400 = Some [] \<and>
   trim (ascii '' ab '') \<noteq> [] \<and> int (length (trim (ascii '' ab ''))) \<le> 400 \<and>
   splitTextIntoChunks (ascii '' ab '') 400 = Some [ascii ''ab'']"
proof -
  have a: "trim (ascii ''  '') = []"
    by (simp add: ascii_def trim_def trimStart_def trimEnd_def isWhiteSpace_def)
  have b: "trim (ascii '' ab '') = ascii ''ab''"
    by (simp add: ascii_def trim_def trimStart_def trimEnd_def isWhiteSpace_def)
  have c: "ascii ''ab'' \<noteq> [] \<and> int (length (ascii ''ab'')) \<le> 400"
    by (simp add: ascii_def)
  show ?thesis
    using splitTextIntoChunks_short [of "ascii ''  ''" 400]
      splitTextIntoChunks_short [of "ascii '' ab ''" 400] a b c
    by simp
qed

text \<open>
  Claim C6. For every text and every \<open>maxLength\<close>, no chunk that \<open>splitTextIntoChunks\<close>
  returns is empty or pure whitespace, and the call returns whenever \<open>maxLength\<close> is not
  negative. For a text without \<open>.\<close>, \<open>?\<close>, \<open>!\<close> whose trimmed length exceeds
  \<open>maxLength\<close>, every chunk that the fallback loop produces has at most \<open>maxLength\<close>
  code units and neither starts nor ends with whitespace; the bound needs no exception, since
  a window without a space to break on is cut at \<open>maxLength\<close>. From \<open>maxLength = 1\<close> on,
  these chunks are what the function returns (for \<open>maxLength = 0\<close> the loop produces no
  chunk and the final safety check returns the trimmed text).
\<close>

theorem splitTextIntoChunks_chunks:
  "(\<forall>cs. splitTextIntoChunks text m = Some cs \<longrightarrow> list_all (\<lambda>c. \<not> blank c) cs) \<and>
   (0 \<le> m \<longrightarrow> (\<exists>cs. splitTextIntoChunks text m = Some cs)) \<and>
   (noSentenceEnd (trim text) \<and> m < int (length (trim text)) \<longrightarrow>
      (\<forall>cs. fallbackLoop (trim text) m 0 [] = Some cs \<longrightarrow> list_all (bounded m) cs) \<and>
      (1 \<le> m \<longrightarrow> splitTextIntoChunks text m = fallbackLoop (trim text) m 0 []))"
proof (intro conjI allI impI)
  fix cs assume "splitTextIntoChunks text m = Some cs"
  then have "list_all tidy cs" by (rule splitTextIntoChunks_tidy)
  then show "list_all (\<lambda>c. \<not> blank c) cs"
    by (auto simp: list_all_iff tidy_not_blank)
next
  assume "0 \<le> m"
  then show "\<exists>cs. splitTextIntoChunks text m = Some cs"
    by (rule splitTextIntoChunks_returns)
next
  fix cs assume "fallbackLoop (trim text) m 0 [] = Some cs"
  then show "list_all (bounded m) cs" by (rule fallbackLoop_bounded)
next
  assume "noSentenceEnd (trim text) \<and> m < int (length (trim text))" and "1 \<le> m"
  then show "splitTextIntoChunks text m = fallbackLoop (trim text) m 0 []"
    using splitTextIntoChunks_fallback(1) by blast
qed

theorem splitTextIntoChunks_chunks_witness:
  "noSentenceEnd (trim (ascii ''aaa bbb ccc'')) \<and> 5 < int (length (trim (ascii ''aaa bbb ccc''))) \<and>
   splitTextIntoChunks (ascii ''aaa bbb ccc'') 5 = Some [ascii ''aaa'', ascii ''bbb'', ascii ''ccc''] \<and>
   fallbackLoop (trim (ascii ''aaa bbb ccc'')) 5 0 [] = Some [ascii ''aaa'', ascii ''bbb'', ascii ''ccc''] \<and>
   list_all (\<lambda>c. \<not> blank c) [ascii ''aaa'', ascii ''bbb'', ascii ''ccc''] \<and>
   list_all (bounded 5) [ascii ''aaa'', ascii ''bbb'', ascii ''ccc'']"
proof -
  have t: "trim (ascii ''aaa bbb ccc'') = ascii ''aaa bbb ccc''"
    by (simp add: ascii_def trim_def trimStart_def trimEnd_def isWhiteSpace_def)
  have n: "noSentenceEnd (ascii ''aaa bbb ccc'')"
    by (simp add: ascii_def noSentenceEnd_def isSentenceEnd_def)
  have l: "5 < int (length (ascii ''aaa bbb ccc''))"
    by (simp add: ascii_def)
  have f: "fallbackLoop (ascii ''aaa bbb ccc'') 5 0 [] = Some [ascii ''aaa'', ascii ''bbb'', ascii ''ccc'']"
    by code_simp
  note T = splitTextIntoChunks_chunks [of "ascii ''aaa bbb ccc''" 5]
  have s: "splitTextIntoChunks (ascii ''aaa bbb ccc'') 5 = Some [ascii ''aaa'', ascii ''bbb'', ascii ''ccc'']"
    using T t n l f by simp
  have nb: "list_all (\<lambda>c. \<not> blank c) [ascii ''aaa'', ascii ''bbb'', ascii ''ccc'']"
    using T s by blast
  have b: "list_all (bounded 5) [ascii ''aaa'', ascii ''bbb'', ascii ''ccc'']"
    using T t n l f by simp
  show ?thesis
    using t n l f s nb b by simp
qed

text \<open>
  Claim C10, as stated, for every \<open>maxLength\<close>: a text without sentence punctuation and
  without a space, longer than \<open>maxLength\<close>, would lose a character. At \<open>maxLength = 0\<close>
  the loop produces no chunk and the final safety check returns the whole trimmed text, so
  nothing is dropped.
\<close>

theorem splitTextIntoChunks_drops_counterexample:
  "noSentenceEnd (trim (ascii ''ab'')) \<and> SPACE \<notin> set (trim (ascii ''ab'')) \<and>
   0 < int (length (trim (ascii ''ab''))) \<and>
   splitTextIntoChunks (ascii ''ab'') 0 = Some [ascii ''ab''] \<and>
   concat [ascii ''ab''] = trim (ascii ''ab'')"
proof -
  have t: "trim (ascii ''ab'') = ascii ''ab''"
    by (simp add: ascii_def trim_def trimStart_def trimEnd_def isWhiteSpace_def)
  have n: "noSentenceEnd (ascii ''ab'') \<and> SPACE \<notin> set (ascii ''ab'')"
    by (simp add: ascii_def noSentenceEnd_def isSentenceEnd_def SPACE_def)
  have s: "splitTextIntoChunks (ascii ''ab'') 0 = Some [ascii ''ab'']"
    by code_simp
  show ?thesis
    using t n s by (simp add: ascii_def)
qed

text \<open>
  Claim C10, amended. For \<open>maxLength \<ge> 1\<close> and a text without \<open>.\<close>, \<open>?\<close>, \<open>!\<close> and
  without a space whose trimmed form is longer than \<open>maxLength\<close>, the call returns, and the
  returned chunks together are shorter than the trimmed text by at least one code unit for
  each full window of \<open>maxLength + 1\<close> code units: the code unit after each window is
  skipped. So the concatenation of the chunks is strictly shorter than the trimmed text and
  differs from it.
\<close>

theorem splitTextIntoChunks_drops:
  assumes "1 \<le> m"
    and "noSentenceEnd (trim text)"
    and "SPACE \<notin> set (trim text)"
    and "m < int (length (trim text))"
  shows "\<exists>cs. splitTextIntoChunks text m = Some cs \<and>
           int (length (concat cs)) + int (length (trim text)) div (m + 1) \<le> int (length (trim text)) \<and>
           1 \<le> int (length (trim text)) div (m + 1) \<and>
           length (concat cs) < length (trim text) \<and> concat cs \<noteq> trim text"
proof -
  have m0: "0 \<le> m" using assms(1) by simp
  obtain cs where cs: "fallbackLoop (trim text) m 0 [] = Some cs"
    and le: "int (length (concat cs)) + (int (length (trim text)) - 0) div (m + 1)
             \<le> int (length (concat ([]::jsstring list))) + (int (length (trim text)) - 0)"
    using fallbackLoop_count [OF m0 assms(3), of 0 "[]"] by auto
  have sp: "splitTextIntoChunks text m = Some cs"
    using splitTextIntoChunks_fallback(1) [OF assms(1,2,4)] cs by simp
  have "(m + 1) div (m + 1) \<le> int (length (trim text)) div (m + 1)"
    using assms(1,4) by (intro zdiv_mono1) simp_all
  then have d: "1 \<le> int (length (trim text)) div (m + 1)"
    using assms(1) by simp
  then have lt: "length (concat cs) < length (trim text)"
    using le by simp
  then have "concat cs \<noteq> trim text" by auto
  then show ?thesis
    using sp le d lt by (intro exI [of _ cs]) simp
qed

theorem splitTextIntoChunks_drops_witness:
  "(1::int) \<le> 2 \<and> noSentenceEnd (trim (ascii ''abcde'')) \<and> SPACE \<notin> set (trim (ascii ''abcde'')) \<and>
   2 < int (length (trim (ascii ''abcde''))) \<and>
   splitTextIntoChunks (ascii ''abcde'') 2 = Some [ascii ''ab'', ascii ''de''] \<and>
   (\<exists>cs. splitTextIntoChunks (ascii ''abcde'') 2 = Some cs \<and>
      int (length (concat cs)) + int (length (trim (ascii ''abcde''))) div (2 + 1)
        \<le> int (length (trim (ascii ''abcde''))) \<and>
      1 \<le> int (length (trim (ascii ''abcde''))) div (2 + 1) \<and>
      length (concat cs) < length (trim (ascii ''abcde'')) \<and> concat cs \<noteq> trim (ascii ''abcde''))"
proof -
  have t: "trim (ascii ''abcde'') = ascii ''abcde''"
    by (simp add: ascii_def trim_def trimStart_def trimEnd_def isWhiteSpace_def)
  have n: "noSentenceEnd (ascii ''abcde'') \<and> SPACE \<notin> set (ascii ''abcde'')"
    by (simp add: ascii_def noSentenceEnd_def isSentenceEnd_def SPACE_def)
  have l: "2 < int (length (ascii ''abcde''))"
    by (simp add: ascii_def)
  have s: "splitTextIntoChunks (ascii ''abcde'') 2 = Some [ascii ''ab'', ascii ''de'']"
    by code_simp
  have "(1::int) \<le> 2" by simp
  from splitTextIntoChunks_drops [OF this, of "ascii ''abcde''"] t n l
  have "\<exists>cs. splitTextIntoChunks (ascii ''abcde'') 2 = Some cs \<and>
      int (length (concat cs)) + int (length (trim (ascii ''abcde''))) div (2 + 1)
        \<le> int (length (trim (ascii ''abcde''))) \<and>
      1 \<le> int (length (trim (ascii ''abcde''))) div (2 + 1) \<and>
      length (concat cs) < length (trim (ascii ''abcde'')) \<and> concat cs \<noteq> trim (ascii ''abcde'')"
    by simp
  then show ?thesis
    using t n l s by simp
qed

section \<open>Facts about the sanitization\<close>

lemma codePoints_SPACE: "codePoints (SPACE # s) = 0x20 # codePoints s"
  by (cases s) (simp_all add: SPACE_def isHighSurrogate_def)

lemma replaceUnwanted_first:
  "replaceUnwanted u (d # cs) \<noteq> [] \<and>
   (hd (replaceUnwanted u (d # cs)) = d \<or> hd (replaceUnwanted u (d # cs)) = SPACE)"
  by (cases cs) auto

lemma codePoints_single:
  assumes "\<not> (isHighSurrogate c \<and> isLowSurrogate (hd s))" and "s \<noteq> []"
  shows "codePoints (c # s) = unat c # codePoints s"
  using assms by (cases s) auto

lemma SPACE_not_low: "\<not> isLowSurrogate SPACE"
  by (simp add: SPACE_def isLowSurrogate_def)

lemma replaceUnwanted_codePoints:
  "codePoints (replaceUnwanted u s) = map (\<lambda>cp. if keptByTts u cp then cp else 0x20) (codePoints s)"
proof (induction u s rule: replaceUnwanted.induct)
  case (1 u)
  then show ?case by simp
next
  case (2 u c)
  then show ?case by (simp add: SPACE_def)
next
  case (3 u c d cs)
  show ?case
  proof (cases "isHighSurrogate c \<and> isLowSurrogate d")
    case True
    then show ?thesis
      using 3 by (simp add: codePoints_SPACE)
  next
    case False
    let ?r = "replaceUnwanted u (d # cs)"
    have r: "?r \<noteq> []" "hd ?r = d \<or> hd ?r = SPACE"
      using replaceUnwanted_first [of u d cs] by auto
    then have np: "\<not> (isHighSurrogate c \<and> isLowSurrogate (hd ?r))"
      using False SPACE_not_low by auto
    have IH: "codePoints ?r = map (\<lambda>cp. if keptByTts u cp then cp else 0x20) (codePoints (d # cs))"
      using 3 False by simp
    have e3: "codePoints (c # d # cs) = unat c # codePoints (d # cs)"
      using False by auto
    show ?thesis
    proof (cases "keptByTts u (unat c)")
      case True
      have e1: "replaceUnwanted u (c # d # cs) = c # ?r"
        using False True by auto
      have e2: "codePoints (c # ?r) = unat c # codePoints ?r"
        using np r(1) by (rule codePoints_single)
      show ?thesis
        by (simp only: e1 e2 e3 IH list.map True if_True)
    next
      case nk: False
      have e1: "replaceUnwanted u (c # d # cs) = SPACE # ?r"
        using False nk by auto
      show ?thesis
        by (simp only: e1 e3 IH list.map nk if_False codePoints_SPACE)
    qed
  qed
qed

lemma matchSeq_Star: "matchSeq [Star p] s = Some (length (takeWhile p s))"
  by (induction s) simp_all

lemma collapse_Nil: "collapseWhitespace [] = []"
  by (simp add: collapseWhitespace_def whitespaceRun_def)

lemma collapse_ws:
  "isWhiteSpace c \<Longrightarrow> collapseWhitespace (c # cs) = SPACE # collapseWhitespace (dropWhile isWhiteSpace cs)"
  by (simp add: collapseWhitespace_def whitespaceRun_def matchSeq_Star dropWhile_eq_drop)

lemma collapse_nonws:
  "\<not> isWhiteSpace c \<Longrightarrow> collapseWhitespace (c # cs) = c # collapseWhitespace cs"
  by (simp add: collapseWhitespace_def whitespaceRun_def)

lemma collapse_word:
  "list_all (\<lambda>c. \<not> isWhiteSpace c) w \<Longrightarrow> collapseWhitespace (w @ r) = w @ collapseWhitespace r"
  by (induction w) (simp_all add: collapse_nonws)

lemma wordsFrom_word:
  "list_all (\<lambda>c. \<not> isWhiteSpace c) w \<Longrightarrow> wordsFrom cur (w @ r) = wordsFrom (cur @ w) r"
  by (induction w arbitrary: cur) simp_all

lemma wordsFrom_skip: "wordsFrom [] s = wordsFrom [] (dropWhile isWhiteSpace s)"
  by (induction s) simp_all

lemma wordsFrom_nonempty: "cur \<noteq> [] \<Longrightarrow> wordsFrom cur s \<noteq> []"
  by (induction s arbitrary: cur) simp_all

lemma trimEnd_append: "\<not> blank y \<Longrightarrow> trimEnd (a @ y) = a @ trimEnd y"
proof -
  assume "\<not> blank y"
  then obtain c where "c \<in> set (rev y)" "\<not> isWhiteSpace c"
    by (auto simp: blank_def list_all_iff)
  then have "dropWhile isWhiteSpace (rev y @ rev a) = dropWhile isWhiteSpace (rev y) @ rev a"
    by (rule dropWhile_append1)
  then show ?thesis by (simp add: trimEnd_def)
qed

lemma trimEnd_blank: "blank y \<Longrightarrow> trimEnd (a @ y) = trimEnd a"
proof -
  assume "blank y"
  then have "\<And>c. c \<in> set (rev y) \<Longrightarrow> isWhiteSpace c"
    by (simp add: blank_def list_all_iff)
  then have "dropWhile isWhiteSpace (rev y @ rev a) = dropWhile isWhiteSpace (rev a)"
    by (rule dropWhile_append2)
  then show ?thesis by (simp add: trimEnd_def)
qed

lemma trimEnd_word:
  assumes "w \<noteq> []" and "list_all (\<lambda>c. \<not> isWhiteSpace c) w"
  shows "trimEnd w = w"
proof -
  have "last w \<in> set w" using assms(1) by simp
  then have "\<not> isWhiteSpace (last w)"
    using assms(2) by (simp add: list_all_iff)
  then have "\<not> isWhiteSpace (hd (rev w))"
    using assms(1) by (simp add: hd_rev)
  then have "dropWhile isWhiteSpace (rev w) = rev w"
    by (simp add: dropWhile_eq_self_iff)
  then show ?thesis by (simp add: trimEnd_def)
qed

lemma joinWords_Cons: "vs \<noteq> [] \<Longrightarrow> joinWords (w # vs) = w @ SPACE # joinWords vs"
  by (cases vs) simp_all

lemma collapse_words:
  assumes "x = [] \<or> \<not> isWhiteSpace (hd x)"
  shows "trimEnd (collapseWhitespace x) = joinWords (wordsFrom [] x)"
  using assms
proof (induction "length x" arbitrary: x rule: less_induct)
  case less
  show ?case
  proof (cases x)
    case Nil
    then show ?thesis by (simp add: collapse_Nil trimEnd_def)
  next
    case (Cons c cs)
    then have nw: "\<not> isWhiteSpace c" using less.prems by simp
    define w where "w = takeWhile (\<lambda>c. \<not> isWhiteSpace c) x"
    define r where "r = dropWhile (\<lambda>c. \<not> isWhiteSpace c) x"
    have x: "x = w @ r" by (simp add: w_def r_def)
    have wne: "w \<noteq> []" using Cons nw by (simp add: w_def)
    have wall: "list_all (\<lambda>c. \<not> isWhiteSpace c) w"
      by (auto simp: w_def list_all_iff dest: set_takeWhileD)
    have c1: "collapseWhitespace x = w @ collapseWhitespace r"
      using collapse_word [OF wall, of r] x by simp
    have w1: "wordsFrom [] x = wordsFrom w r"
      using wordsFrom_word [OF wall, of "[]" r] x by simp
    show ?thesis
    proof (cases r)
      case Nil
      then show ?thesis
        using c1 w1 wne trimEnd_word [OF wne wall] by (simp add: collapse_Nil)
    next
      case rc: (Cons d ds)
      have "\<not> \<not> isWhiteSpace (hd r)"
        unfolding r_def by (rule hd_dropWhile) (use rc r_def in simp)
      then have wd: "isWhiteSpace d" using rc by simp
      define r' where "r' = dropWhile isWhiteSpace ds"
      have c2: "collapseWhitespace r = SPACE # collapseWhitespace r'"
        using collapse_ws [OF wd, of ds] rc r'_def by simp
      have "wordsFrom [] ds = wordsFrom [] r'"
        unfolding r'_def by (rule wordsFrom_skip)
      then have w2: "wordsFrom w r = w # wordsFrom [] r'"
        using rc wd wne by simp
      have "length r' \<le> length ds"
        unfolding r'_def by (rule length_dropWhile_le)
      then have len: "length r' < length x"
        using x rc by simp
      have start: "r' = [] \<or> \<not> isWhiteSpace (hd r')"
        unfolding r'_def using hd_dropWhile [of isWhiteSpace ds] by blast
      have IH: "trimEnd (collapseWhitespace r') = joinWords (wordsFrom [] r')"
        using less.hyps [OF len start] .
      show ?thesis
      proof (cases "r' = []")
        case True
        have "blank [SPACE]" by (simp add: blank_def isWhiteSpace_def SPACE_def)
        then have "trimEnd (w @ [SPACE]) = trimEnd w" by (rule trimEnd_blank)
        then show ?thesis
          using c1 c2 w1 w2 True trimEnd_word [OF wne wall] by (simp add: collapse_Nil)
      next
        case False
        then obtain e es where r': "r' = e # es" by (cases r') auto
        then have ne: "\<not> isWhiteSpace e" using start by simp
        then have ce: "collapseWhitespace r' = e # collapseWhitespace es"
          using r' by (simp add: collapse_nonws)
        then have nb: "\<not> blank (collapseWhitespace r')"
          using ne by (simp add: blank_def)
        have t1: "trimEnd ((w @ [SPACE]) @ collapseWhitespace r') = (w @ [SPACE]) @ trimEnd (collapseWhitespace r')"
          using nb by (rule trimEnd_append)
        have "wordsFrom [] r' = wordsFrom [e] es"
          using r' ne by simp
        then have "wordsFrom [] r' \<noteq> []"
          using wordsFrom_nonempty [of "[e]" es] by simp
        then have "joinWords (w # wordsFrom [] r') = w @ SPACE # joinWords (wordsFrom [] r')"
          by (rule joinWords_Cons)
        then show ?thesis
          using c1 c2 w1 w2 t1 IH by simp
      qed
    qed
  qed
qed

lemma collapse_start:
  assumes "x = [] \<or> \<not> isWhiteSpace (hd x)"
  shows "trimStart (collapseWhitespace x) = collapseWhitespace x"
proof (cases x)
  case Nil
  then show ?thesis by (simp add: collapse_Nil trimStart_def)
next
  case (Cons c cs)
  then have "\<not> isWhiteSpace c" using assms by simp
  then show ?thesis
    using Cons by (simp add: collapse_nonws trimStart_def)
qed

lemma trim_collapse: "trim (collapseWhitespace x) = joinWords (wordsOf x)"
proof -
  let ?y = "dropWhile isWhiteSpace x"
  have start: "?y = [] \<or> \<not> isWhiteSpace (hd ?y)"
    using hd_dropWhile [of isWhiteSpace x] by blast
  have "trimStart (collapseWhitespace x) = collapseWhitespace ?y"
  proof (cases x)
    case Nil
    then show ?thesis by (simp add: collapse_Nil trimStart_def)
  next
    case (Cons c cs)
    show ?thesis
    proof (cases "isWhiteSpace c")
      case True
      have s2: "dropWhile isWhiteSpace cs = [] \<or> \<not> isWhiteSpace (hd (dropWhile isWhiteSpace cs))"
        using hd_dropWhile [of isWhiteSpace cs] by blast
      have "trimStart (SPACE # collapseWhitespace (dropWhile isWhiteSpace cs))
            = trimStart (collapseWhitespace (dropWhile isWhiteSpace cs))"
        by (simp add: trimStart_def isWhiteSpace_def SPACE_def)
      then show ?thesis
        using True Cons collapse_start [OF s2] by (simp add: collapse_ws)
    next
      case False
      then show ?thesis
        using Cons collapse_start [of x] by simp
    qed
  qed
  then have "trim (collapseWhitespace x) = trimEnd (collapseWhitespace ?y)"
    by (simp add: trim_def)
  also have "\<dots> = joinWords (wordsFrom [] ?y)"
    using start by (rule collapse_words)
  also have "\<dots> = joinWords (wordsOf x)"
    using wordsFrom_skip [of x] by (simp add: wordsOf_def)
  finally show ?thesis .
qed

section \<open>Properties of the local TTS client\<close>

text \<open>
  Claim C7. The first pass of the sanitization maps the text code point by code point: a
  character that is a letter, a number, whitespace or one of \<open>. , ! ? :\<close> and the ellipsis is
  kept, every other character becomes one space, and none is deleted. The second pass
  leaves the words of that text joined by single spaces, with no whitespace at either end. When
  the result is empty, the function throws a \<open>TtsError\<close> and issues no request; when the
  text is not blank, the server URL is set and the result is not empty, exactly one request is
  issued, with the sanitized text.
\<close>

theorem fetchSpeech_sanitization:
  "codePoints (replaceUnwanted u txt) =
     map (\<lambda>cp. if keptByTts u cp then cp else 0x20) (codePoints txt) \<and>
   sanitize u txt = joinWords (wordsOf (replaceUnwanted u txt)) \<and>
   (sanitize u txt = [] \<longrightarrow>
      (\<exists>m. fetchSpeechFromLocalServer u txt serverUrl net = ([], Inl (TtsError m)))) \<and>
   (trim txt \<noteq> [] \<and> serverUrl \<noteq> [] \<and> sanitize u txt \<noteq> [] \<longrightarrow>
      map req_text (fst (fetchSpeechFromLocalServer u txt serverUrl net)) = [sanitize u txt])"
proof -
  have "trim txt \<noteq> [] \<Longrightarrow> txt \<noteq> []"
    by (auto simp: trim_Nil)
  then show ?thesis
    by (auto simp: replaceUnwanted_codePoints sanitize_def trim_collapse
        fetchSpeechFromLocalServer_def Let_def)
qed

theorem fetchSpeech_sanitization_witness:
  "sanitize asciiUnicode (ascii ''--'') = [] \<and>
   fetchSpeechFromLocalServer asciiUnicode (ascii ''--'') (ascii ''http://h'') (\<lambda>r. Audio ()) =
     ([], Inl (TtsError EmptyAfterSanitization)) \<and>
   trim (ascii '' a-b  c! '') \<noteq> [] \<and> ascii ''http://h'' \<noteq> [] \<and>
   sanitize asciiUnicode (ascii '' a-b  c! '') = ascii ''a b c!'' \<and>
   map req_text (fst (fetchSpeechFromLocalServer asciiUnicode (ascii '' a-b  c! '') (ascii ''http://h'')
     (\<lambda>r. Audio ()))) = [ascii ''a b c!'']"
proof -
  have s1: "sanitize asciiUnicode (ascii ''--'') = []"
    by (simp add: sanitize_def asciiUnicode_def ascii_def keptByTts_def isWhiteSpaceCp_def
      isWhiteSpace_def SPACE_def isHighSurrogate_def isLowSurrogate_def collapseWhitespace_def
      whitespaceRun_def trim_def trimStart_def trimEnd_def)
  have t2: "trim (ascii '' a-b  c! '') \<noteq> [] \<and> ascii ''http://h'' \<noteq> []"
    by (simp add: ascii_def trim_def trimStart_def trimEnd_def isWhiteSpace_def)
  have s2: "sanitize asciiUnicode (ascii '' a-b  c! '') = ascii ''a b c!''"
    by (simp add: sanitize_def asciiUnicode_def ascii_def keptByTts_def isWhiteSpaceCp_def
      isWhiteSpace_def SPACE_def isHighSurrogate_def isLowSurrogate_def collapseWhitespace_def
      whitespaceRun_def trim_def trimStart_def trimEnd_def)
  have s3: "ascii ''a b c!'' \<noteq> []"
    by (simp add: ascii_def)
  note T1 = fetchSpeech_sanitization [of asciiUnicode "ascii ''--''" "ascii ''http://h''" "\<lambda>r. Audio ()"]
  note T2 = fetchSpeech_sanitization [of asciiUnicode "ascii '' a-b  c! ''" "ascii ''http://h''" "\<lambda>r. Audio ()"]
  have f1: "fetchSpeechFromLocalServer asciiUnicode (ascii ''--'') (ascii ''http://h'') (\<lambda>r. Audio ()) =
     ([], Inl (TtsError EmptyAfterSanitization))"
    using s1 by (simp add: fetchSpeechFromLocalServer_def ascii_def trim_def trimStart_def trimEnd_def
        isWhiteSpace_def)
  have f2: "map req_text (fst (fetchSpeechFromLocalServer asciiUnicode (ascii '' a-b  c! '')
      (ascii ''http://h'') (\<lambda>r. Audio ()))) = [ascii ''a b c!'']"
    using T2 t2 s2 s3 by simp
  have "\<exists>m. fetchSpeechFromLocalServer asciiUnicode (ascii ''--'') (ascii ''http://h'') (\<lambda>r. Audio ()) =
     ([], Inl (TtsError m))"
    using T1 s1 by blast
  then show ?thesis
    using s1 f1 t2 s2 f2 by simp
qed

section \<open>Facts about the compiled prefix pattern\<close>

lemma escapeRegExp_append: "escapeRegExp (a @ b) = escapeRegExp a @ escapeRegExp b"
  by (simp add: escapeRegExp_def)

lemma escapeRegExp_hash: "escapeRegExp (HASH # b) = HASH # escapeRegExp b"
  by (simp add: escapeRegExp_def isRegExpSpecial_def HASH_def)

lemma escapeRegExp_no_hash: "HASH \<notin> set a \<Longrightarrow> HASH \<notin> set (escapeRegExp a)"
  by (induction a) (auto simp: escapeRegExp_def HASH_def)

lemma replaceFirst_hash:
  "HASH \<notin> set a \<Longrightarrow> replaceFirst hashRegex rep (a @ HASH # b) = a @ rep @ b"
  by (induction a) (auto simp: hashRegex_def)

lemma parse_escaped_step:
  "parseFrom u pend None (escapeRegExp (c # w) @ R) =
     map_option ((@) (flush pend)) (parseFrom u (Some (ciChar u c)) None (escapeRegExp w @ R))"
proof (cases "isRegExpSpecial c")
  case True
  then have "escapeAtom u c = Some (ciChar u c)"
    by (auto simp: escapeAtom_def isRegExpSpecial_def isSyntaxCharacter_def)
  then show ?thesis
    using True by (simp add: escapeRegExp_def)
next
  case False
  then have "c \<noteq> 0x2A" "c \<noteq> 0x2B" "c \<noteq> 0x3F" "c \<noteq> 0x5C" "c \<noteq> 0x5B" "\<not> isSyntaxCharacter c"
    by (auto simp: isRegExpSpecial_def isSyntaxCharacter_def)
  then show ?thesis
    using False by (simp add: escapeRegExp_def)
qed

lemma parse_number:
  "parseFrom u pend None (numberPattern @ T) =
     map_option ((@) (flush pend @ numberItems u)) (parseFrom u None None T)"
  by (cases "parseFrom u None None T")
    (simp_all add: numberPattern_def ascii_def escapeAtom_def numberItems_def separatorClass_def
      flush_def)

lemma parse_after:
  "parseFrom u pend None (escapeRegExp w) = Some (flush pend @ map (literal u) w)"
proof (induction w arbitrary: pend)
  case Nil
  then show ?case by (simp add: escapeRegExp_def)
next
  case (Cons c w)
  have "parseFrom u pend None (escapeRegExp (c # w) @ []) =
     map_option ((@) (flush pend)) (parseFrom u (Some (ciChar u c)) None (escapeRegExp w @ []))"
    by (rule parse_escaped_step)
  then show ?case
    using Cons [of "Some (ciChar u c)"] by (simp add: flush_def literal_def)
qed

lemma parse_before:
  "parseFrom u pend None (escapeRegExp w @ numberPattern @ escapeRegExp a) =
     Some (flush pend @ map (literal u) w @ numberItems u @ map (literal u) a)"
proof (induction w arbitrary: pend)
  case Nil
  have "escapeRegExp [] = []" by (simp add: escapeRegExp_def)
  then show ?case
    using parse_number [of u pend "escapeRegExp a"] parse_after [of u None a]
    by (simp add: flush_def)
next
  case (Cons c w)
  show ?case
    using parse_escaped_step [of u pend c w "numberPattern @ escapeRegExp a"]
      Cons [of "Some (ciChar u c)"]
    by (simp add: flush_def literal_def)
qed

lemma removalRegex_compiled:
  assumes "HASH \<notin> set b"
  shows "removalRegex u (b @ HASH # a) =
           Some (True, map (literal u) b @ numberItems u @ map (literal u) a)"
proof -
  have "replaceFirst hashRegex numberPattern (escapeRegExp (b @ HASH # a)) =
          escapeRegExp b @ numberPattern @ escapeRegExp a"
    using replaceFirst_hash [OF escapeRegExp_no_hash [OF assms]]
    by (simp add: escapeRegExp_append escapeRegExp_hash)
  then show ?thesis
    using parse_before [of u None b a]
    by (simp add: removalRegex_def parseRegExp_def flush_def)
qed

lemma substring_drop: "substring s (int n) (int (length s)) = drop n s"
  by (simp add: substring_def Let_def min_def max_def)

lemma leading_whitespace:
  "substring s 0 (int (length s) - int (length (trimStart s))) = takeWhile isWhiteSpace s"
proof -
  have "length (takeWhile isWhiteSpace s) + length (dropWhile isWhiteSpace s) = length s"
    by (metis length_append takeWhile_dropWhile_id)
  then have l: "int (length s) - int (length (trimStart s)) = int (length (takeWhile isWhiteSpace s))"
    by (simp add: trimStart_def)
  have "length (takeWhile isWhiteSpace s) \<le> length s"
    by (rule length_takeWhile_le)
  then have "substring s 0 (int (length (takeWhile isWhiteSpace s))) =
      take (length (takeWhile isWhiteSpace s)) s"
    by (simp add: substring_def Let_def min_def max_def)
  then show ?thesis
    unfolding l by (simp add: takeWhile_eq_take [symmetric])
qed

lemma cleanContent_compiled:
  assumes "removalRegex u p = Some (True, items)"
  shows "cleanContent u p c =
           (case matchSeq items (trimStart c) of
              None \<Rightarrow> c
            | Some n \<Rightarrow>
                if take n (trimStart c) = [] then c
                else takeWhile isWhiteSpace c @ drop n (trimStart c))"
proof (cases "matchSeq items (trimStart c)")
  case None
  then show ?thesis
    using assms by (simp add: cleanContent_def Let_def regexMatch_def)
next
  case (Some n)
  have "substring (trimStart c) (int (length (take n (trimStart c)))) (int (length (trimStart c))) =
          drop (length (take n (trimStart c))) (trimStart c)"
    by (rule substring_drop)
  also have "\<dots> = drop n (trimStart c)"
    by (simp add: min_def)
  finally have d: "substring (trimStart c) (int (length (take n (trimStart c))))
      (int (length (trimStart c))) = drop n (trimStart c)" .
  show ?thesis
    using assms Some leading_whitespace [of c]
    by (simp add: cleanContent_def Let_def regexMatch_def d del: length_take)
qed

lemma removedPart_compiled:
  assumes "removalRegex u p = Some (True, items)"
  shows "removedPart u p c = map_option (\<lambda>n. take n (trimStart c)) (matchSeq items (trimStart c))"
  using assms by (simp add: removedPart_def regexMatch_def)

lemma trimStart_leading:
  assumes "list_all isWhiteSpace ws" and "\<not> isWhiteSpace x"
  shows "trimStart (ws @ x # s) = x # s" and "takeWhile isWhiteSpace (ws @ x # s) = ws"
  using assms by (simp_all add: trimStart_def list_all_iff dropWhile_append3 takeWhile_append2)

lemma chapter_pattern:
  "removalRegex u (ascii ''Chapter #'') =
     Some (True, map (literal u) (ascii ''Chapter '') @ numberItems u)"
proof -
  have "HASH \<notin> set (ascii ''Chapter '')"
    by (simp add: ascii_def HASH_def)
  from removalRegex_compiled [OF this, of u "[]"] show ?thesis
    by (simp add: ascii_def HASH_def)
qed

lemma chapter_match:
  "matchSeq (map (literal u) (ascii ''Chapter '') @ numberItems u) (ascii ''Chapter 12: Foo'' @ rest)
     = Some 12"
  by (simp add: ascii_def literal_def ciChar_def canonicalize_def numberItems_def
      isWhiteSpace_def isDigit_def ciClass_def separatorClass_def)

lemma chapter_match_lower:
  "matchSeq (map (literal u) (ascii ''Chapter '') @ numberItems u) (ascii ''chapter 12: Foo'' @ rest)
     = Some 12"
  by (simp add: ascii_def literal_def ciChar_def canonicalize_def numberItems_def
      isWhiteSpace_def isDigit_def ciClass_def separatorClass_def)

section \<open>Properties of the prefix cleanup\<close>

text \<open>
  Claim C9. A prefix pattern with a \<open>#\<close> compiles to a pattern anchored at the start whose
  items are: the characters before the first \<open>#\<close>, each matched literally (escaping makes
  every metacharacter literal) and case-insensitively; then optional whitespace, one or more
  digits, an optional separator among \<open>.\<close>, \<open>:\<close>, \<open>-\<close>, optional whitespace; then the
  characters after the first \<open>#\<close>, again literally (a later \<open>#\<close> included). For every
  content, the pattern is matched at the start of the content without its leading whitespace:
  the part removed is the match there, and the new content is the leading whitespace followed
  by what comes after the match; a content without a match there, or with an empty match,
  stays as it is. So for the pattern \<open>Chapter #\<close> and a content that has \<open>chapter 12: Foo\<close>
  (in lower case) after any leading whitespace, the part removed is \<open>chapter 12: \<close> and the
  new content is the leading whitespace followed by \<open>Foo\<close> and the rest; and for a content
  that starts with \<open>Chapter 12: Foo\<close>, the part removed is \<open>Chapter 12: \<close> (with the
  space) and the new content starts with \<open>Foo\<close>.
\<close>

theorem prefix_cleanup_pattern:
  "(HASH \<notin> set b \<longrightarrow>
      removalRegex u (b @ HASH # a) =
        Some (True, map (literal u) b @ numberItems u @ map (literal u) a) \<and>
      removedPart u (b @ HASH # a) c =
        map_option (\<lambda>n. take n (trimStart c))
          (matchSeq (map (literal u) b @ numberItems u @ map (literal u) a) (trimStart c)) \<and>
      cleanContent u (b @ HASH # a) c =
        (case matchSeq (map (literal u) b @ numberItems u @ map (literal u) a) (trimStart c) of
           None \<Rightarrow> c
         | Some n \<Rightarrow>
             if take n (trimStart c) = [] then c
             else takeWhile isWhiteSpace c @ drop n (trimStart c))) \<and>
   (list_all isWhiteSpace ws \<longrightarrow>
      removedPart u (ascii ''Chapter #'') (ws @ ascii ''chapter 12: Foo'' @ rest) =
        Some (ascii ''chapter 12: '') \<and>
      cleanContent u (ascii ''Chapter #'') (ws @ ascii ''chapter 12: Foo'' @ rest) =
        ws @ ascii ''Foo'' @ rest) \<and>
   removedPart u (ascii ''Chapter #'') (ascii ''Chapter 12: Foo'' @ rest) =
     Some (ascii ''Chapter 12: '') \<and>
   cleanContent u (ascii ''Chapter #'') (ascii ''Chapter 12: Foo'' @ rest) = ascii ''Foo'' @ rest \<and>
   map content (chapters (handleSaveChanges u (ascii ''Chapter #'')
       [chapter\<lparr>content := ascii ''Chapter 12: Foo'' @ rest\<rparr>] book)) = [ascii ''Foo'' @ rest]"
proof -
  let ?items = "map (literal u) (ascii ''Chapter '') @ numberItems u"
  let ?c = "ascii ''Chapter 12: Foo'' @ rest"
  let ?l = "ascii ''chapter 12: Foo'' @ rest"
  have g: "HASH \<notin> set b \<longrightarrow>
      removalRegex u (b @ HASH # a) =
        Some (True, map (literal u) b @ numberItems u @ map (literal u) a) \<and>
      removedPart u (b @ HASH # a) c =
        map_option (\<lambda>n. take n (trimStart c))
          (matchSeq (map (literal u) b @ numberItems u @ map (literal u) a) (trimStart c)) \<and>
      cleanContent u (b @ HASH # a) c =
        (case matchSeq (map (literal u) b @ numberItems u @ map (literal u) a) (trimStart c) of
           None \<Rightarrow> c
         | Some n \<Rightarrow>
             if take n (trimStart c) = [] then c
             else takeWhile isWhiteSpace c @ drop n (trimStart c))"
    using removalRegex_compiled [of b u a]
      removedPart_compiled [of u "b @ HASH # a" _ c] cleanContent_compiled [of u "b @ HASH # a" _ c]
    by blast
  have ts: "trimStart ?c = ?c" "takeWhile isWhiteSpace ?c = []"
    by (simp_all add: trimStart_def ascii_def isWhiteSpace_def)
  have r: "removedPart u (ascii ''Chapter #'') ?c = Some (ascii ''Chapter 12: '')"
    using chapter_match [of u rest]
    by (simp add: removedPart_compiled [OF chapter_pattern] ts) (simp add: ascii_def)
  have c: "cleanContent u (ascii ''Chapter #'') ?c = ascii ''Foo'' @ rest"
    using chapter_match [of u rest]
    by (simp add: cleanContent_compiled [OF chapter_pattern] ts) (simp add: ascii_def)
  have w: "list_all isWhiteSpace ws \<longrightarrow>
      removedPart u (ascii ''Chapter #'') (ws @ ?l) = Some (ascii ''chapter 12: '') \<and>
      cleanContent u (ascii ''Chapter #'') (ws @ ?l) = ws @ ascii ''Foo'' @ rest"
  proof
    assume ws: "list_all isWhiteSpace ws"
    have l: "?l = 0x63 # (ascii ''hapter 12: Foo'' @ rest)" "\<not> isWhiteSpace (0x63 :: jschar)"
      by (simp_all add: ascii_def isWhiteSpace_def)
    have tl: "trimStart (ws @ ?l) = ?l" "takeWhile isWhiteSpace (ws @ ?l) = ws"
      unfolding l(1) using trimStart_leading [OF ws l(2)] by simp_all
    have r1: "removedPart u (ascii ''Chapter #'') (ws @ ?l) = Some (ascii ''chapter 12: '')"
      using chapter_match_lower [of u rest]
      by (simp add: removedPart_compiled [OF chapter_pattern] tl) (simp add: ascii_def)
    have c1: "cleanContent u (ascii ''Chapter #'') (ws @ ?l) = ws @ ascii ''Foo'' @ rest"
      using chapter_match_lower [of u rest]
      by (simp add: cleanContent_compiled [OF chapter_pattern] tl) (simp add: ascii_def)
    show "removedPart u (ascii ''Chapter #'') (ws @ ?l) = Some (ascii ''chapter 12: '') \<and>
      cleanContent u (ascii ''Chapter #'') (ws @ ?l) = ws @ ascii ''Foo'' @ rest"
      using r1 c1 by simp
  qed
  have t: "trim (ascii ''Chapter #'') = ascii ''Chapter #''"
    by (simp add: ascii_def trim_def trimStart_def trimEnd_def isWhiteSpace_def)
  have n: "ascii ''Chapter #'' \<noteq> []" by (simp add: ascii_def)
  have h: "map content (chapters (handleSaveChanges u (ascii ''Chapter #'')
       [chapter\<lparr>content := ?c\<rparr>] book)) = [ascii ''Foo'' @ rest]"
    using c t n by (simp add: handleSaveChanges_def Let_def)
  show ?thesis
    using g w r c h by blast
qed

theorem prefix_cleanup_pattern_witness:
  "HASH \<notin> set (ascii ''Ch. '') \<and>
   removalRegex asciiUnicode (ascii ''Ch. '' @ HASH # ascii '')'') =
     Some (True, map (literal asciiUnicode) (ascii ''Ch. '') @ numberItems asciiUnicode @
                 map (literal asciiUnicode) (ascii '')'')) \<and>
   list_all isWhiteSpace (ascii ''  '') \<and>
   removedPart asciiUnicode (ascii ''Chapter #'') (ascii ''  chapter 12: Foo bar'') =
     Some (ascii ''chapter 12: '') \<and>
   cleanContent asciiUnicode (ascii ''Chapter #'') (ascii ''  chapter 12: Foo bar'') =
     ascii ''  Foo bar''"
proof -
  have h: "HASH \<notin> set (ascii ''Ch. '')"
    by (simp add: ascii_def HASH_def)
  have w: "list_all isWhiteSpace (ascii ''  '')"
    by (simp add: ascii_def isWhiteSpace_def)
  have e: "ascii ''  '' @ ascii ''chapter 12: Foo'' @ ascii '' bar'' = ascii ''  chapter 12: Foo bar''"
    "ascii ''  '' @ ascii ''Foo'' @ ascii '' bar'' = ascii ''  Foo bar''"
    by (simp_all add: ascii_def)
  show ?thesis
    using h w
      prefix_cleanup_pattern [of "ascii ''Ch. ''" asciiUnicode "ascii '')''" "[]" "ascii ''  ''"
        "ascii '' bar''"]
    unfolding e by blast
qed

section \<open>Facts about the book table\<close>

lemma addAll_fresh:
  "addAll keyOf rs t = Some t' \<Longrightarrow> r \<in> set rs \<Longrightarrow> keyOf r = Some k \<Longrightarrow> t k = None"
proof (induction rs arbitrary: t)
  case Nil
  then show ?case by simp
next
  case (Cons a rs)
  from Cons.prems(1) obtain ka where ka: "keyOf a = Some ka" "t ka = None"
    and rest: "addAll keyOf rs (t(ka \<mapsto> a)) = Some t'"
    by (auto split: option.splits if_splits)
  show ?case
  proof (cases "r = a")
    case True
    then show ?thesis using ka Cons.prems(3) by simp
  next
    case False
    then have "r \<in> set rs" using Cons.prems(2) by simp
    from Cons.IH [OF rest this Cons.prems(3)] show ?thesis
      by (auto split: if_splits)
  qed
qed

lemma addAll_result:
  "addAll keyOf rs t = Some t' \<Longrightarrow>
   dom t' = dom t \<union> {k. \<exists>r\<in>set rs. keyOf r = Some k} \<and>
   (\<forall>r\<in>set rs. \<exists>k. keyOf r = Some k \<and> t' k = Some r) \<and>
   (\<forall>k. (\<forall>r\<in>set rs. keyOf r \<noteq> Some k) \<longrightarrow> t' k = t k)"
proof (induction rs arbitrary: t)
  case Nil
  then show ?case by simp
next
  case (Cons a rs)
  from Cons.prems obtain ka where ka: "keyOf a = Some ka" "t ka = None"
    and rest: "addAll keyOf rs (t(ka \<mapsto> a)) = Some t'"
    by (auto split: option.splits if_splits)
  note IH = Cons.IH [OF rest]
  have fresh: "\<forall>r\<in>set rs. keyOf r \<noteq> Some ka"
    using addAll_fresh [OF rest] by fastforce
  then have a: "t' ka = Some a"
    using IH by simp
  have d: "dom t' = dom t \<union> {k. \<exists>r\<in>set (a # rs). keyOf r = Some k}"
    using IH ka by (auto simp: dom_def split: if_splits)
  have e: "\<forall>r\<in>set (a # rs). \<exists>k. keyOf r = Some k \<and> t' k = Some r"
    using IH ka a by auto
  have f: "\<forall>k. (\<forall>r\<in>set (a # rs). keyOf r \<noteq> Some k) \<longrightarrow> t' k = t k"
    using IH ka by auto
  show ?case using d e f by blast
qed

lemma addAll_keys:
  "addAll keyOf rs t = Some t' \<Longrightarrow> list_all (\<lambda>r. keyOf r \<noteq> None) rs \<and> distinct (map keyOf rs)"
proof (induction rs arbitrary: t)
  case Nil
  then show ?case by simp
next
  case (Cons a rs)
  from Cons.prems obtain ka where ka: "keyOf a = Some ka" "t ka = None"
    and rest: "addAll keyOf rs (t(ka \<mapsto> a)) = Some t'"
    by (auto split: option.splits if_splits)
  have "\<forall>r\<in>set rs. keyOf r \<noteq> Some ka"
    using addAll_fresh [OF rest] by fastforce
  then have "keyOf a \<notin> set (map keyOf rs)"
    using ka by auto
  then show ?case
    using Cons.IH [OF rest] ka by simp
qed

lemma replaceBooks_result:
  assumes "replaceBooks bs ok t = Some t'"
  shows "\<exists>rs. bs = Some (JArr rs) \<and> list_all (\<lambda>r. recordKey r \<noteq> None) rs \<and>
           distinct (map recordKey rs) \<and> dom t' = payloadIds rs \<and>
           (\<forall>r\<in>set rs. \<exists>k. recordKey r = Some k \<and> t' k = Some r)"
proof -
  from assms obtain rs where bs: "bs = Some (JArr rs)" and a: "addAll recordKey rs Map.empty = Some t'"
    by (auto simp: replaceBooks_def dbClear_def dbBulkAdd_def
        split: option.splits json.splits if_splits)
  show ?thesis
    using bs addAll_result [OF a] addAll_keys [OF a] by (auto simp: payloadIds_def)
qed

lemma restore_success:
  assumes "handleRestoreSettings fetched dbOk storageOk dev = (dev', RestoreSuccess) \<or>
           handleRestoreSwitcher fetched dbOk storageOk dev = (dev', RestoreSuccess)"
  shows "\<exists>d. fetched = Inr d \<and>
           replaceBooks (field d (ascii ''books'')) dbOk (storedBooks dev) = Some (storedBooks dev')"
  using assms
  by (auto simp: handleRestoreSettings_def handleRestoreSwitcher_def saveSettings_def
      split: sum.splits option.splits if_splits)

lemma addAll_succeeds:
  "list_all (\<lambda>r. keyOf r \<noteq> None) rs \<Longrightarrow> distinct (map keyOf rs) \<Longrightarrow>
   \<forall>r\<in>set rs. \<forall>k. keyOf r = Some k \<longrightarrow> t k = None \<Longrightarrow>
   \<exists>t'. addAll keyOf rs t = Some t'"
proof (induction rs arbitrary: t)
  case Nil
  then show ?case by simp
next
  case (Cons a rs)
  from Cons.prems(1) obtain ka where ka: "keyOf a = Some ka"
    by auto
  have free: "t ka = None"
    using Cons.prems(3) ka by simp
  have "\<forall>r\<in>set rs. \<forall>k. keyOf r = Some k \<longrightarrow> (t(ka \<mapsto> a)) k = None"
  proof (intro ballI allI impI)
    fix r k
    assume r: "r \<in> set rs" and k: "keyOf r = Some k"
    have "keyOf a \<notin> set (map keyOf rs)"
      using Cons.prems(2) by simp
    then have "k \<noteq> ka"
      using r k ka by force
    then show "(t(ka \<mapsto> a)) k = None"
      using Cons.prems(3) r k by simp
  qed
  have "\<exists>t'. addAll keyOf rs (t(ka \<mapsto> a)) = Some t'"
  proof (rule Cons.IH)
    show "list_all (\<lambda>r. keyOf r \<noteq> None) rs"
      using Cons.prems(1) by simp
    show "distinct (map keyOf rs)"
      using Cons.prems(2) by simp
    show "\<forall>r\<in>set rs. \<forall>k. keyOf r = Some k \<longrightarrow> (t(ka \<mapsto> a)) k = None"
      by fact
  qed
  then show ?case
    using ka free by simp
qed

lemma replaceBooks_succeeds:
  assumes "list_all (\<lambda>r. recordKey r \<noteq> None) rs" and "distinct (map recordKey rs)"
  shows "\<exists>t'. replaceBooks (Some (JArr rs)) True t = Some t' \<and> dom t' = payloadIds rs \<and>
           (\<forall>r\<in>set rs. \<exists>k. recordKey r = Some k \<and> t' k = Some r)"
proof -
  from addAll_succeeds [OF assms, of Map.empty] obtain t'
    where a: "addAll recordKey rs Map.empty = Some t'"
    by auto
  have "replaceBooks (Some (JArr rs)) True t = Some t'"
    using a by (simp add: replaceBooks_def dbClear_def dbBulkAdd_def)
  then show ?thesis
    using addAll_result [OF a] by (auto simp: payloadIds_def)
qed

lemma map_other_ids:
  "k \<notin> book_id ` set bs \<Longrightarrow> map (\<lambda>book. if book_id book = k then f book else book) bs = bs"
  by (induction bs) auto

section \<open>Properties of the book store and of the restore\<close>

text \<open>
  Claim C2, as stated: after a failed write the in-memory list would still show the
  mutation. Each operation of the hook awaits the write first and calls \<open>setBooks\<close> only
  after it has succeeded, so a book whose \<open>add\<close> failed is not in the list.
\<close>

theorem bookStore_optimistic_counterexample:
  "dbAdd (book_id sampleBook) sampleBook False (booksTable emptyStore) = None \<and>
   books (addBook sampleBook False emptyStore) = [] \<and>
   sampleBook \<notin> set (books (addBook sampleBook False emptyStore))"
  by (simp add: dbAdd_def addBook_def emptyStore_def)

text \<open>
  Claim C2, amended. For each of \<open>add\<close>, \<open>delete\<close>, \<open>update\<close> and \<open>updatePosition\<close>, the
  in-memory list changes only after the write to the database has succeeded. When the write
  fails, the in-memory list and the table are left as they were and the failure is logged:
  one line is written with \<open>console.error\<close>. When the write succeeds, nothing is logged, the
  table is the written one, and the list is: for \<open>add\<close>, the list with the new book
  appended; for \<open>delete\<close>, the list without the entries of that id; for \<open>update\<close>, the list
  with each entry of that id replaced by the updated book; for \<open>updatePosition\<close>, the list
  with the position set in each entry of that id. The last two add no entry: when no entry
  of the list has the id, the list stays as it is.
\<close>

theorem bookStore_failed_write:
  "(dbAdd (book_id b) b ok (booksTable st) = None \<longrightarrow>
      books (addBook b ok st) = books st \<and> booksTable (addBook b ok st) = booksTable st \<and>
      consoleErrors (addBook b ok st) = consoleErrors st @ [FailedToAdd]) \<and>
   (dbDelete k ok (booksTable st) = None \<longrightarrow>
      books (deleteBook k ok st) = books st \<and> booksTable (deleteBook k ok st) = booksTable st \<and>
      consoleErrors (deleteBook k ok st) = consoleErrors st @ [FailedToDelete]) \<and>
   (dbPut (book_id b) b ok (booksTable st) = None \<longrightarrow>
      books (updateBook b ok st) = books st \<and> booksTable (updateBook b ok st) = booksTable st \<and>
      consoleErrors (updateBook b ok st) = consoleErrors st @ [FailedToUpdate]) \<and>
   (dbUpdate k (\<lambda>book. book\<lparr>lastPosition := Some p\<rparr>) ok (booksTable st) = None \<longrightarrow>
      books (updateBookPosition k p ok st) = books st \<and>
      booksTable (updateBookPosition k p ok st) = booksTable st \<and>
      consoleErrors (updateBookPosition k p ok st) = consoleErrors st @ [FailedToUpdatePosition]) \<and>
   (dbAdd (book_id b) b ok (booksTable st) = Some t \<longrightarrow>
      books (addBook b ok st) = books st @ [b] \<and> booksTable (addBook b ok st) = t \<and>
      consoleErrors (addBook b ok st) = consoleErrors st) \<and>
   (dbDelete k ok (booksTable st) = Some t \<longrightarrow>
      books (deleteBook k ok st) = filter (\<lambda>book. book_id book \<noteq> k) (books st) \<and>
      booksTable (deleteBook k ok st) = t \<and>
      consoleErrors (deleteBook k ok st) = consoleErrors st) \<and>
   (dbPut (book_id b) b ok (booksTable st) = Some t \<longrightarrow>
      books (updateBook b ok st) =
        map (\<lambda>book. if book_id book = book_id b then b else book) (books st) \<and>
      (book_id b \<notin> book_id ` set (books st) \<longrightarrow> books (updateBook b ok st) = books st) \<and>
      booksTable (updateBook b ok st) = t \<and>
      consoleErrors (updateBook b ok st) = consoleErrors st) \<and>
   (dbUpdate k (\<lambda>book. book\<lparr>lastPosition := Some p\<rparr>) ok (booksTable st) = Some t \<longrightarrow>
      books (updateBookPosition k p ok st) =
        map (\<lambda>book. if book_id book = k then book\<lparr>lastPosition := Some p\<rparr> else book) (books st) \<and>
      (k \<notin> book_id ` set (books st) \<longrightarrow> books (updateBookPosition k p ok st) = books st) \<and>
      booksTable (updateBookPosition k p ok st) = t \<and>
      consoleErrors (updateBookPosition k p ok st) = consoleErrors st)"
proof -
  have m1: "book_id b \<notin> book_id ` set (books st) \<longrightarrow>
      map (\<lambda>book. if book_id book = book_id b then b else book) (books st) = books st"
    using map_other_ids [of "book_id b" "books st" "\<lambda>book. b"] by simp
  have m2: "k \<notin> book_id ` set (books st) \<longrightarrow>
      map (\<lambda>book. if book_id book = k then book\<lparr>lastPosition := Some p\<rparr> else book) (books st) =
      books st"
    using map_other_ids [of k "books st" "\<lambda>book. book\<lparr>lastPosition := Some p\<rparr>"] by simp
  have a: "(dbAdd (book_id b) b ok (booksTable st) = None \<longrightarrow>
      books (addBook b ok st) = books st \<and> booksTable (addBook b ok st) = booksTable st \<and>
      consoleErrors (addBook b ok st) = consoleErrors st @ [FailedToAdd]) \<and>
     (dbAdd (book_id b) b ok (booksTable st) = Some t \<longrightarrow>
      books (addBook b ok st) = books st @ [b] \<and> booksTable (addBook b ok st) = t \<and>
      consoleErrors (addBook b ok st) = consoleErrors st)"
    by (simp add: addBook_def)
  have d: "(dbDelete k ok (booksTable st) = None \<longrightarrow>
      books (deleteBook k ok st) = books st \<and> booksTable (deleteBook k ok st) = booksTable st \<and>
      consoleErrors (deleteBook k ok st) = consoleErrors st @ [FailedToDelete]) \<and>
     (dbDelete k ok (booksTable st) = Some t \<longrightarrow>
      books (deleteBook k ok st) = filter (\<lambda>book. book_id book \<noteq> k) (books st) \<and>
      booksTable (deleteBook k ok st) = t \<and>
      consoleErrors (deleteBook k ok st) = consoleErrors st)"
    by (simp add: deleteBook_def)
  have u: "(dbPut (book_id b) b ok (booksTable st) = None \<longrightarrow>
      books (updateBook b ok st) = books st \<and> booksTable (updateBook b ok st) = booksTable st \<and>
      consoleErrors (updateBook b ok st) = consoleErrors st @ [FailedToUpdate]) \<and>
     (dbPut (book_id b) b ok (booksTable st) = Some t \<longrightarrow>
      books (updateBook b ok st) =
        map (\<lambda>book. if book_id book = book_id b then b else book) (books st) \<and>
      (book_id b \<notin> book_id ` set (books st) \<longrightarrow> books (updateBook b ok st) = books st) \<and>
      booksTable (updateBook b ok st) = t \<and>
      consoleErrors (updateBook b ok st) = consoleErrors st)"
    using m1 by (simp add: updateBook_def)
  have q: "(dbUpdate k (\<lambda>book. book\<lparr>lastPosition := Some p\<rparr>) ok (booksTable st) = None \<longrightarrow>
      books (updateBookPosition k p ok st) = books st \<and>
      booksTable (updateBookPosition k p ok st) = booksTable st \<and>
      consoleErrors (updateBookPosition k p ok st) = consoleErrors st @ [FailedToUpdatePosition]) \<and>
     (dbUpdate k (\<lambda>book. book\<lparr>lastPosition := Some p\<rparr>) ok (booksTable st) = Some t \<longrightarrow>
      books (updateBookPosition k p ok st) =
        map (\<lambda>book. if book_id book = k then book\<lparr>lastPosition := Some p\<rparr> else book) (books st) \<and>
      (k \<notin> book_id ` set (books st) \<longrightarrow> books (updateBookPosition k p ok st) = books st) \<and>
      booksTable (updateBookPosition k p ok st) = t \<and>
      consoleErrors (updateBookPosition k p ok st) = consoleErrors st)"
    using m2 by (simp add: updateBookPosition_def)
  show ?thesis
    using a d u q by blast
qed

theorem bookStore_failed_write_witness:
  "dbAdd (book_id sampleBook) sampleBook False (booksTable emptyStore) = None \<and>
   books (addBook sampleBook False emptyStore) = [] \<and>
   booksTable (addBook sampleBook False emptyStore) = Map.empty \<and>
   consoleErrors (addBook sampleBook False emptyStore) = [FailedToAdd] \<and>
   dbDelete (ascii ''b1'') False (booksTable emptyStore) = None \<and>
   books (deleteBook (ascii ''b1'') False emptyStore) = [] \<and>
   consoleErrors (deleteBook (ascii ''b1'') False emptyStore) = [FailedToDelete] \<and>
   dbPut (book_id sampleBook) sampleBook False (booksTable emptyStore) = None \<and>
   books (updateBook sampleBook False emptyStore) = [] \<and>
   consoleErrors (updateBook sampleBook False emptyStore) = [FailedToUpdate] \<and>
   dbUpdate (ascii ''b1'') (\<lambda>book. book\<lparr>lastPosition := Some \<lparr>chapterIndex = 0, sentenceIndex = 2\<rparr>\<rparr>)
     False (booksTable emptyStore) = None \<and>
   books (updateBookPosition (ascii ''b1'') \<lparr>chapterIndex = 0, sentenceIndex = 2\<rparr> False emptyStore) = [] \<and>
   consoleErrors (updateBookPosition (ascii ''b1'') \<lparr>chapterIndex = 0, sentenceIndex = 2\<rparr> False emptyStore) =
     [FailedToUpdatePosition] \<and>
   dbAdd (book_id sampleBook) sampleBook True (booksTable emptyStore) = Some [ascii ''b1'' \<mapsto> sampleBook] \<and>
   books (addBook sampleBook True emptyStore) = [sampleBook] \<and>
   booksTable (addBook sampleBook True emptyStore) = [ascii ''b1'' \<mapsto> sampleBook] \<and>
   consoleErrors (addBook sampleBook True emptyStore) = [] \<and>
   dbDelete (ascii ''b1'') True (booksTable (addBook sampleBook True emptyStore)) = Some Map.empty \<and>
   books (deleteBook (ascii ''b1'') True (addBook sampleBook True emptyStore)) = [] \<and>
   dbPut (book_id sampleBook) sampleBook True (booksTable emptyStore) = Some [ascii ''b1'' \<mapsto> sampleBook] \<and>
   book_id sampleBook \<notin> book_id ` set (books emptyStore) \<and>
   books (updateBook sampleBook True emptyStore) = [] \<and>
   booksTable (updateBook sampleBook True emptyStore) = [ascii ''b1'' \<mapsto> sampleBook] \<and>
   dbUpdate (ascii ''b1'') (\<lambda>book. book\<lparr>lastPosition := Some \<lparr>chapterIndex = 0, sentenceIndex = 2\<rparr>\<rparr>)
     True (booksTable emptyStore) = Some Map.empty \<and>
   books (updateBookPosition (ascii ''b1'') \<lparr>chapterIndex = 0, sentenceIndex = 2\<rparr> True emptyStore) = []"
proof -
  let ?p = "\<lparr>chapterIndex = 0, sentenceIndex = 2\<rparr>"
  let ?one = "addBook sampleBook True emptyStore"
  have e: "books emptyStore = []" "booksTable emptyStore = Map.empty" "consoleErrors emptyStore = []"
    "book_id sampleBook = ascii ''b1''"
    by (simp_all add: emptyStore_def sampleBook_def)
  have f: "dbAdd (book_id sampleBook) sampleBook False (booksTable emptyStore) = None"
    "dbDelete (ascii ''b1'') False (booksTable emptyStore) = None"
    "dbPut (book_id sampleBook) sampleBook False (booksTable emptyStore) = None"
    "dbUpdate (ascii ''b1'') (\<lambda>book. book\<lparr>lastPosition := Some ?p\<rparr>) False (booksTable emptyStore) = None"
    by (simp_all add: dbAdd_def dbDelete_def dbPut_def dbUpdate_def)
  have s: "dbAdd (book_id sampleBook) sampleBook True (booksTable emptyStore) =
        Some [ascii ''b1'' \<mapsto> sampleBook]"
    "dbPut (book_id sampleBook) sampleBook True (booksTable emptyStore) =
        Some [ascii ''b1'' \<mapsto> sampleBook]"
    "dbUpdate (ascii ''b1'') (\<lambda>book. book\<lparr>lastPosition := Some ?p\<rparr>) True (booksTable emptyStore) =
        Some Map.empty"
    by (simp_all add: dbAdd_def dbPut_def dbUpdate_def e)
  note F = bookStore_failed_write [of sampleBook False emptyStore "ascii ''b1''" ?p Map.empty]
  note S = bookStore_failed_write [of sampleBook True emptyStore "ascii ''b1''" ?p
      "[ascii ''b1'' \<mapsto> sampleBook]"]
  note U = bookStore_failed_write [of sampleBook True emptyStore "ascii ''b1''" ?p Map.empty]
  have one: "books ?one = [sampleBook]" "booksTable ?one = [ascii ''b1'' \<mapsto> sampleBook]"
    "consoleErrors ?one = []"
    using S s e by simp_all
  have d: "dbDelete (ascii ''b1'') True (booksTable ?one) = Some Map.empty"
    by (simp add: dbDelete_def one)
  note D = bookStore_failed_write [of sampleBook True ?one "ascii ''b1''" ?p Map.empty]
  have dl: "books (deleteBook (ascii ''b1'') True ?one) = []"
    using D d one e by simp
  have n: "book_id sampleBook \<notin> book_id ` set (books emptyStore)"
    by (simp add: e)
  have fs: "books (addBook sampleBook False emptyStore) = []"
    "booksTable (addBook sampleBook False emptyStore) = Map.empty"
    "consoleErrors (addBook sampleBook False emptyStore) = [FailedToAdd]"
    "books (deleteBook (ascii ''b1'') False emptyStore) = []"
    "consoleErrors (deleteBook (ascii ''b1'') False emptyStore) = [FailedToDelete]"
    "books (updateBook sampleBook False emptyStore) = []"
    "consoleErrors (updateBook sampleBook False emptyStore) = [FailedToUpdate]"
    "books (updateBookPosition (ascii ''b1'') ?p False emptyStore) = []"
    "consoleErrors (updateBookPosition (ascii ''b1'') ?p False emptyStore) = [FailedToUpdatePosition]"
    using F f e by simp_all
  have us: "books (updateBook sampleBook True emptyStore) = []"
    "booksTable (updateBook sampleBook True emptyStore) = [ascii ''b1'' \<mapsto> sampleBook]"
    using S s n e by simp_all
  have ps: "books (updateBookPosition (ascii ''b1'') ?p True emptyStore) = []"
    using U s e by simp
  show ?thesis
    using f s one d dl n fs us ps by simp
qed

text \<open>
  Claim C3. Whenever a restore, in the Settings view or in the Profile Switcher, ends in
  success, the payload's \<open>books\<close> is a list of records with pairwise different valid ids,
  the keys of the \<open>books\<close> table are exactly the ids of that list, and each id holds its
  record of the payload: nothing of the table before the restore remains. And both flows do
  end in success, with that table and the payload's settings saved, for every payload whose
  \<open>books\<close> is a list of records with pairwise different valid ids and whose \<open>settings\<close> is
  an object, when the database accepts the writes.
\<close>

theorem restore_replaces_books:
  "(handleRestoreSettings fetched dbOk storageOk dev = (dev', RestoreSuccess) \<or>
    handleRestoreSwitcher fetched dbOk storageOk dev = (dev', RestoreSuccess) \<longrightarrow>
      (\<exists>d rs. fetched = Inr d \<and> field d (ascii ''books'') = Some (JArr rs) \<and>
         list_all (\<lambda>r. recordKey r \<noteq> None) rs \<and> distinct (map recordKey rs) \<and>
         dom (storedBooks dev') = payloadIds rs \<and>
         (\<forall>r\<in>set rs. \<exists>k. recordKey r = Some k \<and> storedBooks dev' k = Some r))) \<and>
   (field p (ascii ''books'') = Some (JArr bs) \<and> field p (ascii ''settings'') = Some (JObj fs) \<and>
    list_all (\<lambda>r. recordKey r \<noteq> None) bs \<and> distinct (map recordKey bs) \<longrightarrow>
      (\<exists>t. dom t = payloadIds bs \<and> (\<forall>r\<in>set bs. \<exists>k. recordKey r = Some k \<and> t k = Some r) \<and>
         handleRestoreSettings (Inr p) True storageOk dev =
           (saveSettings (Some (JObj fs)) storageOk (dev\<lparr>storedBooks := t\<rparr>), RestoreSuccess) \<and>
         handleRestoreSwitcher (Inr p) True storageOk dev =
           (saveSettings (Some (JObj fs)) storageOk (dev\<lparr>storedBooks := t\<rparr>), RestoreSuccess)))"
proof (intro conjI impI)
  assume "handleRestoreSettings fetched dbOk storageOk dev = (dev', RestoreSuccess) \<or>
   handleRestoreSwitcher fetched dbOk storageOk dev = (dev', RestoreSuccess)"
  then obtain d where d: "fetched = Inr d"
    "replaceBooks (field d (ascii ''books'')) dbOk (storedBooks dev) = Some (storedBooks dev')"
    using restore_success by blast
  from replaceBooks_result [OF d(2)] d(1) show "\<exists>d rs. fetched = Inr d \<and>
        field d (ascii ''books'') = Some (JArr rs) \<and>
        list_all (\<lambda>r. recordKey r \<noteq> None) rs \<and> distinct (map recordKey rs) \<and>
        dom (storedBooks dev') = payloadIds rs \<and>
        (\<forall>r\<in>set rs. \<exists>k. recordKey r = Some k \<and> storedBooks dev' k = Some r)"
    by blast
next
  assume a: "field p (ascii ''books'') = Some (JArr bs) \<and> field p (ascii ''settings'') = Some (JObj fs) \<and>
    list_all (\<lambda>r. recordKey r \<noteq> None) bs \<and> distinct (map recordKey bs)"
  then obtain t where t: "replaceBooks (Some (JArr bs)) True (storedBooks dev) = Some t"
    "dom t = payloadIds bs" "\<forall>r\<in>set bs. \<exists>k. recordKey r = Some k \<and> t k = Some r"
    using replaceBooks_succeeds [of bs "storedBooks dev"] by blast
  have n: "p \<noteq> JNull"
    using a by (auto simp: field_def)
  have s: "settingsAccepts p" "switcherAccepts p"
    using a by (simp_all add: settingsAccepts_def switcherAccepts_def isArray_def typeofObject_def
        truthy_def)
  have "handleRestoreSettings (Inr p) True storageOk dev =
           (saveSettings (Some (JObj fs)) storageOk (dev\<lparr>storedBooks := t\<rparr>), RestoreSuccess)"
    "handleRestoreSwitcher (Inr p) True storageOk dev =
           (saveSettings (Some (JObj fs)) storageOk (dev\<lparr>storedBooks := t\<rparr>), RestoreSuccess)"
    using a n s t(1) by (simp_all add: handleRestoreSettings_def handleRestoreSwitcher_def)
  then show "\<exists>t. dom t = payloadIds bs \<and> (\<forall>r\<in>set bs. \<exists>k. recordKey r = Some k \<and> t k = Some r) \<and>
         handleRestoreSettings (Inr p) True storageOk dev =
           (saveSettings (Some (JObj fs)) storageOk (dev\<lparr>storedBooks := t\<rparr>), RestoreSuccess) \<and>
         handleRestoreSwitcher (Inr p) True storageOk dev =
           (saveSettings (Some (JObj fs)) storageOk (dev\<lparr>storedBooks := t\<rparr>), RestoreSuccess)"
    using t(2,3) by blast
qed

theorem restore_replaces_books_witness:
  "handleRestoreSettings
      (Inr (JObj [(ascii ''books'', JArr [sampleRecord (ascii ''b1'')]), (ascii ''settings'', JObj [])]))
      True True sampleDevice =
     (\<lparr>storedBooks = [JStr (ascii ''b1'') \<mapsto> sampleRecord (ascii ''b1'')],
       storedSettings = Some (JObj [])\<rparr>, RestoreSuccess) \<and>
   handleRestoreSwitcher
      (Inr (JObj [(ascii ''books'', JArr [sampleRecord (ascii ''b2'')]), (ascii ''settings'', JObj [])]))
      True True sampleDevice =
     (\<lparr>storedBooks = [JStr (ascii ''b2'') \<mapsto> sampleRecord (ascii ''b2'')],
       storedSettings = Some (JObj [])\<rparr>, RestoreSuccess) \<and>
   dom (storedBooks sampleDevice) = {JStr (ascii ''old'')} \<and>
   dom [JStr (ascii ''b1'') \<mapsto> sampleRecord (ascii ''b1'')] = payloadIds [sampleRecord (ascii ''b1'')] \<and>
   dom [JStr (ascii ''b2'') \<mapsto> sampleRecord (ascii ''b2'')] = payloadIds [sampleRecord (ascii ''b2'')] \<and>
   JStr (ascii ''old'') \<notin> payloadIds [sampleRecord (ascii ''b1'')] \<and>
   JStr (ascii ''old'') \<notin> payloadIds [sampleRecord (ascii ''b2'')] \<and>
   (\<exists>t. dom t = payloadIds [sampleRecord (ascii ''b2'')] \<and>
      handleRestoreSettings
        (Inr (JObj [(ascii ''books'', JArr [sampleRecord (ascii ''b2'')]), (ascii ''settings'', JObj [])]))
        True True sampleDevice = (\<lparr>storedBooks = t, storedSettings = Some (JObj [])\<rparr>, RestoreSuccess) \<and>
      handleRestoreSwitcher
        (Inr (JObj [(ascii ''books'', JArr [sampleRecord (ascii ''b2'')]), (ascii ''settings'', JObj [])]))
        True True sampleDevice = (\<lparr>storedBooks = t, storedSettings = Some (JObj [])\<rparr>, RestoreSuccess))"
proof -
  let ?j1 = "JObj [(ascii ''books'', JArr [sampleRecord (ascii ''b1'')]), (ascii ''settings'', JObj [])]
              :: int json"
  let ?j2 = "JObj [(ascii ''books'', JArr [sampleRecord (ascii ''b2'')]), (ascii ''settings'', JObj [])]
              :: int json"
  let ?d1 = "\<lparr>storedBooks = [JStr (ascii ''b1'') \<mapsto> sampleRecord (ascii ''b1'')],
             storedSettings = Some (JObj [])\<rparr> :: int device"
  let ?d2 = "\<lparr>storedBooks = [JStr (ascii ''b2'') \<mapsto> sampleRecord (ascii ''b2'')],
             storedSettings = Some (JObj [])\<rparr> :: int device"
  have k: "recordKey (sampleRecord (ascii ''b1'')) = Some (JStr (ascii ''b1''))"
    "recordKey (sampleRecord (ascii ''b2'')) = Some (JStr (ascii ''b2''))"
    by (simp_all add: recordKey_def sampleRecord_def field_def)
  have r1: "handleRestoreSettings (Inr ?j1) True True sampleDevice = (?d1, RestoreSuccess)"
    using k
    by (simp add: handleRestoreSettings_def settingsAccepts_def field_def isArray_def
        typeofObject_def replaceBooks_def dbClear_def dbBulkAdd_def saveSettings_def
        sampleDevice_def ascii_def)
  have r2: "handleRestoreSwitcher (Inr ?j2) True True sampleDevice = (?d2, RestoreSuccess)"
    using k
    by (simp add: handleRestoreSwitcher_def switcherAccepts_def field_def truthy_def
        replaceBooks_def dbClear_def dbBulkAdd_def saveSettings_def
        sampleDevice_def ascii_def)
  from restore_replaces_books [of "Inr ?j1" True True sampleDevice ?d1 ?j2
      "[sampleRecord (ascii ''b2'')]" "[]"] r1
  have p1: "dom (storedBooks ?d1) = payloadIds [sampleRecord (ascii ''b1'')]"
    by (auto simp: field_def ascii_def)
  from restore_replaces_books [of "Inr ?j2" True True sampleDevice ?d2 ?j2
      "[sampleRecord (ascii ''b2'')]" "[]"] r2
  have p2: "dom (storedBooks ?d2) = payloadIds [sampleRecord (ascii ''b2'')]"
    by (auto simp: field_def ascii_def)
  have f: "field ?j2 (ascii ''books'') = Some (JArr [sampleRecord (ascii ''b2'')])"
    "field ?j2 (ascii ''settings'') = Some (JObj [])"
    by (simp_all add: field_def ascii_def)
  have v: "list_all (\<lambda>r. recordKey r \<noteq> None) [sampleRecord (ascii ''b2'')]"
    "distinct (map recordKey [sampleRecord (ascii ''b2'')])"
    using k by simp_all
  from restore_replaces_books [of "Inr ?j2" True True sampleDevice ?d2 ?j2
      "[sampleRecord (ascii ''b2'')]" "[]"] f v
  obtain t where t: "dom t = payloadIds [sampleRecord (ascii ''b2'')]"
    "handleRestoreSettings (Inr ?j2) True True sampleDevice =
       (saveSettings (Some (JObj [])) True (sampleDevice\<lparr>storedBooks := t\<rparr>), RestoreSuccess)"
    "handleRestoreSwitcher (Inr ?j2) True True sampleDevice =
       (saveSettings (Some (JObj [])) True (sampleDevice\<lparr>storedBooks := t\<rparr>), RestoreSuccess)"
    by blast
  have sv: "saveSettings (Some (JObj [])) True (sampleDevice\<lparr>storedBooks := t\<rparr>) =
      \<lparr>storedBooks = t, storedSettings = Some (JObj [])\<rparr>"
    by (simp add: saveSettings_def sampleDevice_def)
  have both: "\<exists>t. dom t = payloadIds [sampleRecord (ascii ''b2'')] \<and>
      handleRestoreSettings (Inr ?j2) True True sampleDevice =
        (\<lparr>storedBooks = t, storedSettings = Some (JObj [])\<rparr>, RestoreSuccess) \<and>
      handleRestoreSwitcher (Inr ?j2) True True sampleDevice =
        (\<lparr>storedBooks = t, storedSettings = Some (JObj [])\<rparr>, RestoreSuccess)"
    using t sv by auto
  have o: "dom (storedBooks sampleDevice) = {JStr (ascii ''old'')}"
    by (simp add: sampleDevice_def)
  have x: "JStr (ascii ''old'') \<notin> payloadIds [sampleRecord (ascii ''b1'')]"
    "JStr (ascii ''old'') \<notin> payloadIds [sampleRecord (ascii ''b2'')]"
    using k by (simp_all add: payloadIds_def ascii_def)
  show ?thesis
    using r1 r2 o p1 p2 x both by simp
qed

text \<open>
  Claim C4. Both flows are to accept the same payloads, those with a books list and a
  non-null settings object. The Settings view tests \<open>Array.isArray(data.books)\<close> and that
  \<open>data.settings\<close> is a non-null object; the Profile Switcher tests only that both are
  truthy. At the payload with the books \<open>[]\<close> and the settings \<open>true\<close>, on a device that
  holds a book, the Settings view refuses the payload and changes nothing; the Profile
  Switcher accepts it, empties the table, saves \<open>true\<close> as the settings and reports
  success.
\<close>

theorem restore_validation_divergence:
  "switcherAccepts (JObj [(ascii ''books'', JArr []), (ascii ''settings'', JBool True)]) \<and>
   \<not> settingsAccepts (JObj [(ascii ''books'', JArr []), (ascii ''settings'', JBool True)]) \<and>
   handleRestoreSettings (Inr (JObj [(ascii ''books'', JArr []), (ascii ''settings'', JBool True)]))
     True True sampleDevice = (sampleDevice, RestoreError InvalidFormat) \<and>
   handleRestoreSwitcher (Inr (JObj [(ascii ''books'', JArr []), (ascii ''settings'', JBool True)]))
     True True sampleDevice =
       (\<lparr>storedBooks = Map.empty, storedSettings = Some (JBool True)\<rparr>, RestoreSuccess)"
  by (simp add: handleRestoreSettings_def handleRestoreSwitcher_def settingsAccepts_def
      switcherAccepts_def field_def isArray_def typeofObject_def truthy_def replaceBooks_def
      dbClear_def dbBulkAdd_def saveSettings_def sampleDevice_def ascii_def)

text \<open>
  The two tests compared. The Settings view accepts a payload exactly when it has a books
  list and a settings value that is an object (or an array) and not \<open>null\<close>; the Profile
  Switcher accepts exactly when the books and the settings are both truthy. Every payload
  that the Settings view accepts the Profile Switcher accepts too, and whenever the two tests
  agree on a payload the two flows end in the same state and status.
\<close>

theorem restore_tests_compared:
  "(settingsAccepts d \<longleftrightarrow>
      (\<exists>rs s. field d (ascii ''books'') = Some (JArr rs) \<and> field d (ascii ''settings'') = Some s \<and>
         ((\<exists>fs. s = JObj fs) \<or> (\<exists>xs. s = JArr xs)))) \<and>
   (switcherAccepts d \<longleftrightarrow>
      truthy (field d (ascii ''books'')) \<and> truthy (field d (ascii ''settings''))) \<and>
   (settingsAccepts d \<longrightarrow> switcherAccepts d) \<and>
   (switcherAccepts d = settingsAccepts d \<longrightarrow>
      handleRestoreSwitcher (Inr d) dbOk storageOk dev =
      handleRestoreSettings (Inr d) dbOk storageOk dev) \<and>
   handleRestoreSwitcher (Inl msg) dbOk storageOk dev = handleRestoreSettings (Inl msg) dbOk storageOk dev"
proof -
  have a: "settingsAccepts d \<longleftrightarrow>
      (\<exists>rs s. field d (ascii ''books'') = Some (JArr rs) \<and> field d (ascii ''settings'') = Some s \<and>
         ((\<exists>fs. s = JObj fs) \<or> (\<exists>xs. s = JArr xs)))"
    by (auto simp: settingsAccepts_def isArray_def typeofObject_def split: option.splits json.splits)
  have b: "settingsAccepts d \<longrightarrow> switcherAccepts d"
    unfolding a by (auto simp: switcherAccepts_def truthy_def)
  have c: "switcherAccepts d = settingsAccepts d \<longrightarrow>
      handleRestoreSwitcher (Inr d) dbOk storageOk dev =
      handleRestoreSettings (Inr d) dbOk storageOk dev"
    by (simp add: handleRestoreSwitcher_def handleRestoreSettings_def)
  have e: "handleRestoreSwitcher (Inl msg) dbOk storageOk dev =
      handleRestoreSettings (Inl msg) dbOk storageOk dev"
    by (simp add: handleRestoreSwitcher_def handleRestoreSettings_def)
  show ?thesis
    using a b c e by (simp add: switcherAccepts_def)
qed

theorem restore_tests_compared_witness:
  "settingsAccepts (JObj [(ascii ''books'', JArr []), (ascii ''settings'', JObj [])] :: int json) \<and>
   switcherAccepts (JObj [(ascii ''books'', JArr []), (ascii ''settings'', JObj [])] :: int json) \<and>
   handleRestoreSwitcher (Inr (JObj [(ascii ''books'', JArr []), (ascii ''settings'', JObj [])]))
     True True sampleDevice =
   handleRestoreSettings (Inr (JObj [(ascii ''books'', JArr []), (ascii ''settings'', JObj [])]))
     True True sampleDevice"
proof -
  let ?d = "JObj [(ascii ''books'', JArr []), (ascii ''settings'', JObj [])] :: int json"
  have s: "settingsAccepts ?d"
    by (simp add: settingsAccepts_def field_def isArray_def typeofObject_def ascii_def)
  note T = restore_tests_compared [of ?d True True sampleDevice "[]"]
  have w: "switcherAccepts ?d" using T s by blast
  then have "handleRestoreSwitcher (Inr ?d) True True sampleDevice =
      handleRestoreSettings (Inr ?d) True True sampleDevice"
    using T s by blast
  then show ?thesis using s w by simp
qed

section \<open>Facts about the import\<close>

lemma epubRawChapters_length:
  "length (epubRawChapters u gen index items) = length (filter loadsText items)"
proof (induction items arbitrary: index)
  case Nil
  then show ?case by simp
next
  case (Cons item items)
  show ?case
    using Cons [of "index + 1"]
    by (cases "loaded item") (simp_all add: epubChapterOf_def loadsText_def)
qed

lemma epubChapters_length:
  "length (epubChapters u gen t items) \<le> length (filter loadsText items)"
proof -
  have "length (epubChapters u gen t items) \<le> length (epubRawChapters u gen 0 items)"
    by (simp add: epubChapters_def Let_def le_trans [OF length_filter_le])
  then show ?thesis
    by (simp add: epubRawChapters_length)
qed

lemma epubChapters_content: "list_all (\<lambda>c. content c \<noteq> []) (epubChapters u gen t items)"
  by (simp add: epubChapters_def Let_def list_all_iff)

lemma parseEpub_Opened:
  "parseEpub u gen name (Opened e) =
     (if spine e \<noteq> [] \<and> epubChapters u gen (epubTitle name e) (spine e) = [] then Inl CorruptedOrDrm
      else Inr \<lparr>book_id = gen (length (spine e)), book_title = epubTitle name e,
                author = creator e, coverImage = cover e,
                chapters = epubChapters u gen (epubTitle name e) (spine e), lastPosition = None\<rparr>)"
  by (simp add: parseEpub_def Let_def)

lemma txtChaptersFrom_ids:
  "map chapter_id (txtChaptersFrom u t rh i raws) = map chapter_id (filter (keepsLine u t rh) raws)"
  by (induction raws arbitrary: i) (simp_all add: keepsLine_def Let_def)

lemma txtChapters_several:
  "1 < length (txtParts u c) \<Longrightarrow>
   txtChapters u gen t c =
     txtChaptersFrom u t (repeatingHeaderOf (txtRawChapters u gen c)) 0 (txtRawChapters u gen c)"
  by (simp add: txtChapters_def txtRawChapters_def Let_def)

lemma txtChapters_full:
  "length (txtParts u c) \<le> 1 \<Longrightarrow>
   txtChapters u gen t c =
     [\<lparr>chapter_id = gen 0, chapter_title = ascii ''Full Text'',
       content = trim (joinLines (dropTitle u t (contentLines c)))\<rparr>]"
  by (simp add: txtChapters_def Let_def)

lemma parseTxt_chapters:
  "parseTxt u gen name txt = Inr book \<Longrightarrow>
   \<exists>c. txt = Some c \<and> c \<noteq> [] \<and> chapters book = txtChapters u gen (stripExtension name) c"
  by (auto simp: parseTxt_def Let_def split: option.splits if_splits)

section \<open>Properties of the import\<close>

text \<open>
  Claim C8. An EPUB import fails with the corrupted-or-DRM error exactly when the book was
  opened, its spine is not empty and no chapter is left after the cleanup. In every other
  case of an opened book the import succeeds with the chapters that are left: each has a
  content, and there are at most as many as spine items that loaded with a text that is not
  blank (an item whose loading fails, or whose text is empty, gives no chapter).
\<close>

theorem parseEpub_corrupted:
  "(parseEpub u gen name (Opened e) = Inl CorruptedOrDrm \<longleftrightarrow>
      spine e \<noteq> [] \<and> epubChapters u gen (epubTitle name e) (spine e) = []) \<and>
   (parseEpub u gen name inp = Inl CorruptedOrDrm \<longrightarrow> (\<exists>e'. inp = Opened e')) \<and>
   (\<not> (spine e \<noteq> [] \<and> epubChapters u gen (epubTitle name e) (spine e) = []) \<longrightarrow>
      (\<exists>book. parseEpub u gen name (Opened e) = Inr book \<and>
         chapters book = epubChapters u gen (epubTitle name e) (spine e))) \<and>
   list_all (\<lambda>c. content c \<noteq> []) (epubChapters u gen (epubTitle name e) (spine e)) \<and>
   length (epubChapters u gen (epubTitle name e) (spine e)) \<le> length (filter loadsText (spine e))"
proof -
  have a: "parseEpub u gen name inp = Inl CorruptedOrDrm \<longrightarrow> (\<exists>e'. inp = Opened e')"
    by (cases inp) (simp_all add: parseEpub_def)
  show ?thesis
    using a epubChapters_content [of u gen "epubTitle name e" "spine e"]
      epubChapters_length [of u gen "epubTitle name e" "spine e"]
    by (simp add: parseEpub_Opened)
qed

lemmas import_defs =
  parseFile_def parseEpub_def parseTxt_def extensionOf_def epubChapters_def epubTitle_def
  txtChapters_def txtParts_def splitChapters_def chapterAhead_def rawTxtChapter_def
  repeatingHeaderOf_def getFirstContentLine_def contentLines_def dropHeader_def dropTitle_def
  cleanEpubChapter_def epubChapterOf_def cleanTitle_def removeJunk_def JUNK_TITLE_REGEX_def
  junkPhrase_def junkChapter_def stripExtension_def extensionRegex_def splitLines_def
  literal_def ciChar_def canonicalize_def isDigit_def isLineTerminator_def NEWLINE_def SPACE_def
  asciiUnicode_def ascii_def trim_def trimStart_def trimEnd_def isWhiteSpace_def
  sampleIds_def sampleItem_def Let_def

lemma lostEpub_chapters:
  "epubChapters asciiUnicode sampleIds (epubTitle (ascii ''a.epub'') lostEpub) (spine lostEpub) = []"
  by (simp add: lostEpub_def import_defs)

lemma partialEpub_chapters:
  "epubChapters asciiUnicode sampleIds (epubTitle (ascii ''a.epub'') partialEpub) (spine partialEpub) =
     [\<lparr>chapter_id = ascii ''id1'', chapter_title = ascii ''Chapter 2'', content = ascii ''hello''\<rparr>]"
  by (simp add: partialEpub_def import_defs)

lemma epub_extension: "extensionOf asciiUnicode (ascii ''a.epub'') = ascii ''epub''"
  by (simp add: extensionOf_def asciiUnicode_def ascii_def)

lemma parseFile_emptyEpub:
  "parseFile asciiUnicode sampleIds emptyEpub =
     Inr \<lparr>book_id = ascii ''id0'', book_title = ascii ''a'', author = None, coverImage = None,
           chapters = [], lastPosition = None\<rparr>"
  by (simp add: emptyEpub_def import_defs)

text \<open>
  A text file that holds two chapter headings and nothing else: both chapters are dropped
  for want of a line, and the Book has no chapter.
\<close>

lemma parseFile_headingsOnly:
  "parseFile asciiUnicode sampleIds headingsOnly =
     Inr \<lparr>book_id = ascii ''id2'', book_title = ascii ''a'', author = None, coverImage = None,
           chapters = [], lastPosition = None\<rparr>"
  by (simp add: headingsOnly_def import_defs)

lemma txt_extension: "extensionOf asciiUnicode (ascii ''a.txt'') = ascii ''txt''"
  by (simp add: extensionOf_def asciiUnicode_def ascii_def)

lemma parseFile_plainText:
  "parseFile asciiUnicode sampleIds plainText =
     Inr \<lparr>book_id = ascii ''id1'', book_title = ascii ''a'', author = None, coverImage = None,
           chapters = [\<lparr>chapter_id = ascii ''id0'', chapter_title = ascii ''Full Text'',
                        content = ascii ''hello''\<rparr>], lastPosition = None\<rparr>"
  by (simp add: plainText_def import_defs)

lemma parseFile_twoChapters:
  "parseFile asciiUnicode sampleIds twoChapters =
     Inr \<lparr>book_id = ascii ''id2'', book_title = ascii ''a'', author = None, coverImage = None,
           chapters = [\<lparr>chapter_id = ascii ''id0'', chapter_title = ascii ''Chapter 1'',
                        content = ascii ''ab''\<rparr>,
                       \<lparr>chapter_id = ascii ''id1'', chapter_title = ascii ''Chapter 2'',
                        content = ascii ''cd''\<rparr>], lastPosition = None\<rparr>"
  by (simp add: twoChapters_def twoChaptersText_def import_defs)

lemma txtParts_plainText: "length (txtParts asciiUnicode (ascii ''hello'')) = 1"
  by (simp add: import_defs)

lemma txtParts_twoChapters: "length (txtParts asciiUnicode twoChaptersText) = 2"
  by (simp add: twoChaptersText_def import_defs)

lemma txtParts_headingsOnly:
  "length (txtParts asciiUnicode (ascii ''Chapter 1'' @ [NEWLINE] @ ascii ''Chapter 2'')) = 2"
  by (simp add: import_defs)


theorem parseEpub_corrupted_witness:
  "parseEpub asciiUnicode sampleIds (ascii ''a.epub'') (Opened lostEpub) = Inl CorruptedOrDrm \<and>
   spine lostEpub \<noteq> [] \<and>
   epubChapters asciiUnicode sampleIds (epubTitle (ascii ''a.epub'') lostEpub) (spine lostEpub) = [] \<and>
   \<not> (spine partialEpub \<noteq> [] \<and>
      epubChapters asciiUnicode sampleIds (epubTitle (ascii ''a.epub'') partialEpub) (spine partialEpub) = []) \<and>
   (\<exists>book. parseEpub asciiUnicode sampleIds (ascii ''a.epub'') (Opened partialEpub) = Inr book \<and>
      map content (chapters book) = [ascii ''hello''])"
proof -
  note T1 = parseEpub_corrupted [of asciiUnicode sampleIds "ascii ''a.epub''" lostEpub "Opened lostEpub"]
  note T2 = parseEpub_corrupted [of asciiUnicode sampleIds "ascii ''a.epub''" partialEpub "Opened partialEpub"]
  have s1: "spine lostEpub \<noteq> []" by (simp add: lostEpub_def)
  have c1: "parseEpub asciiUnicode sampleIds (ascii ''a.epub'') (Opened lostEpub) = Inl CorruptedOrDrm"
    using T1 s1 lostEpub_chapters by blast
  have n2: "epubChapters asciiUnicode sampleIds (epubTitle (ascii ''a.epub'') partialEpub)
      (spine partialEpub) \<noteq> []"
    using partialEpub_chapters by auto
  then have "\<exists>book. parseEpub asciiUnicode sampleIds (ascii ''a.epub'') (Opened partialEpub) = Inr book \<and>
      chapters book = epubChapters asciiUnicode sampleIds (epubTitle (ascii ''a.epub'') partialEpub)
        (spine partialEpub)"
    using T2 by blast
  then have "\<exists>book. parseEpub asciiUnicode sampleIds (ascii ''a.epub'') (Opened partialEpub) = Inr book \<and>
      map content (chapters book) = [ascii ''hello'']"
    using partialEpub_chapters by auto
  then show ?thesis
    using s1 c1 n2 lostEpub_chapters by blast
qed

text \<open>
  Claim C1, as stated: every Book that \<open>parseFile\<close> resolves to would have a chapter. An
  EPUB whose spine is empty passes the test \<open>spine.items.length > 0 && chapters.length === 0\<close>
  and resolves to a Book without chapters.
\<close>

theorem parseFile_chapters_counterexample:
  "parseFile asciiUnicode sampleIds emptyEpub =
     Inr \<lparr>book_id = ascii ''id0'', book_title = ascii ''a'', author = None, coverImage = None,
           chapters = [], lastPosition = None\<rparr> \<and>
   chapters \<lparr>book_id = ascii ''id0'', book_title = ascii ''a'', author = None, coverImage = None,
           chapters = [], lastPosition = None\<rparr> = []"
  using parseFile_emptyEpub by simp

text \<open>
  Claim C1, amended. A Book that \<open>parseFile\<close> resolves to comes from the EPUB path or from
  the TXT path. On the EPUB path the book was opened, and its chapters list is empty exactly
  when the spine is empty. On the TXT path the text was read and is not empty; when it has
  at most one non-blank chapter part, the Book has exactly one chapter, \<open>Full Text\<close>; when
  it has several, the Book has one chapter for each part that keeps a line after the cleanup
  (the repeating header and the book title removed), in their order. So on the TXT path the
  chapters list is empty exactly when the text has several chapter parts and none of them
  keeps a line.
\<close>

theorem parseFile_chapters:
  "parseFile u gen f = Inr book \<longrightarrow>
     (extensionOf u (fileName f) = ascii ''epub'' \<and>
      (\<exists>e. fileEpub f = Opened e \<and> (spine e \<noteq> [] \<longrightarrow> chapters book \<noteq> []) \<and>
         (spine e = [] \<longrightarrow> chapters book = []))) \<or>
     (extensionOf u (fileName f) = ascii ''txt'' \<and>
      (\<exists>c. fileText f = Some c \<and> c \<noteq> [] \<and>
         (length (txtParts u c) \<le> 1 \<longrightarrow>
            map chapter_title (chapters book) = [ascii ''Full Text'']) \<and>
         (1 < length (txtParts u c) \<longrightarrow>
            map chapter_id (chapters book) =
              map chapter_id
                (filter (keepsLine u (stripExtension (fileName f))
                           (repeatingHeaderOf (txtRawChapters u gen c)))
                   (txtRawChapters u gen c))) \<and>
         (chapters book = [] \<longleftrightarrow>
            1 < length (txtParts u c) \<and>
            \<not> list_ex (keepsLine u (stripExtension (fileName f))
                         (repeatingHeaderOf (txtRawChapters u gen c)))
                (txtRawChapters u gen c))))"
proof
  assume r: "parseFile u gen f = Inr book"
  show "(extensionOf u (fileName f) = ascii ''epub'' \<and>
      (\<exists>e. fileEpub f = Opened e \<and> (spine e \<noteq> [] \<longrightarrow> chapters book \<noteq> []) \<and>
         (spine e = [] \<longrightarrow> chapters book = []))) \<or>
     (extensionOf u (fileName f) = ascii ''txt'' \<and>
      (\<exists>c. fileText f = Some c \<and> c \<noteq> [] \<and>
         (length (txtParts u c) \<le> 1 \<longrightarrow>
            map chapter_title (chapters book) = [ascii ''Full Text'']) \<and>
         (1 < length (txtParts u c) \<longrightarrow>
            map chapter_id (chapters book) =
              map chapter_id
                (filter (keepsLine u (stripExtension (fileName f))
                           (repeatingHeaderOf (txtRawChapters u gen c)))
                   (txtRawChapters u gen c))) \<and>
         (chapters book = [] \<longleftrightarrow>
            1 < length (txtParts u c) \<and>
            \<not> list_ex (keepsLine u (stripExtension (fileName f))
                         (repeatingHeaderOf (txtRawChapters u gen c)))
                (txtRawChapters u gen c))))"
  proof (cases "extensionOf u (fileName f) = ascii ''txt''")
    case True
    then have p: "parseTxt u gen (fileName f) (fileText f) = Inr book"
      using r by (simp add: parseFile_def)
    from parseTxt_chapters [OF p] obtain c where c: "fileText f = Some c" "c \<noteq> []"
      and ch: "chapters book = txtChapters u gen (stripExtension (fileName f)) c"
      by blast
    let ?raws = "txtRawChapters u gen c"
    let ?keeps = "keepsLine u (stripExtension (fileName f)) (repeatingHeaderOf ?raws)"
    have one: "length (txtParts u c) \<le> 1 \<longrightarrow>
        map chapter_title (chapters book) = [ascii ''Full Text'']"
      using ch by (simp add: txtChapters_full)
    have several: "1 < length (txtParts u c) \<longrightarrow>
        map chapter_id (chapters book) = map chapter_id (filter ?keeps ?raws)"
      using ch by (simp add: txtChapters_several txtChaptersFrom_ids)
    have "chapters book = [] \<longleftrightarrow> 1 < length (txtParts u c) \<and> \<not> list_ex ?keeps ?raws"
    proof (cases "1 < length (txtParts u c)")
      case True
      then have "map chapter_id (chapters book) = map chapter_id (filter ?keeps ?raws)"
        using several by simp
      then have "chapters book = [] \<longleftrightarrow> filter ?keeps ?raws = []"
        by (metis map_is_Nil_conv)
      then show ?thesis
        using True by (simp add: filter_empty_conv list_ex_iff)
    next
      case False
      then have "map chapter_title (chapters book) = [ascii ''Full Text'']"
        using one by simp
      then have "chapters book \<noteq> []"
        by auto
      then show ?thesis
        using False by simp
    qed
    then show ?thesis
      using True c one several by (intro disjI2 conjI exI [of _ c])
  next
    case False
    then have e: "extensionOf u (fileName f) = ascii ''epub''"
      and p: "parseEpub u gen (fileName f) (fileEpub f) = Inr book"
      using r by (auto simp: parseFile_def Let_def split: if_splits)
    then obtain e' where e': "fileEpub f = Opened e'"
      by (cases "fileEpub f") (simp_all add: parseEpub_def)
    have "epubChapters u gen t [] = []" for t
      by (simp add: epubChapters_def repeatingHeaderOf_def)
    then have "(spine e' \<noteq> [] \<longrightarrow> chapters book \<noteq> []) \<and> (spine e' = [] \<longrightarrow> chapters book = [])"
      using p e' by (auto simp: parseEpub_Opened split: if_splits)
    then show ?thesis using e e' by blast
  qed
qed

theorem parseFile_chapters_witness:
  "parseFile asciiUnicode sampleIds
      (emptyEpub\<lparr>fileEpub := Opened partialEpub\<rparr>) =
     Inr \<lparr>book_id = ascii ''id3'', book_title = ascii ''MyBook'', author = None, coverImage = None,
           chapters = [\<lparr>chapter_id = ascii ''id1'', chapter_title = ascii ''Chapter 2'',
                        content = ascii ''hello''\<rparr>], lastPosition = None\<rparr> \<and>
   extensionOf asciiUnicode (fileName (emptyEpub\<lparr>fileEpub := Opened partialEpub\<rparr>)) = ascii ''epub'' \<and>
   spine partialEpub \<noteq> [] \<and>
   parseFile asciiUnicode sampleIds plainText =
     Inr \<lparr>book_id = ascii ''id1'', book_title = ascii ''a'', author = None, coverImage = None,
           chapters = [\<lparr>chapter_id = ascii ''id0'', chapter_title = ascii ''Full Text'',
                        content = ascii ''hello''\<rparr>], lastPosition = None\<rparr> \<and>
   extensionOf asciiUnicode (fileName plainText) = ascii ''txt'' \<and>
   length (txtParts asciiUnicode (ascii ''hello'')) \<le> 1 \<and>
   parseFile asciiUnicode sampleIds twoChapters =
     Inr \<lparr>book_id = ascii ''id2'', book_title = ascii ''a'', author = None, coverImage = None,
           chapters = [\<lparr>chapter_id = ascii ''id0'', chapter_title = ascii ''Chapter 1'',
                        content = ascii ''ab''\<rparr>,
                       \<lparr>chapter_id = ascii ''id1'', chapter_title = ascii ''Chapter 2'',
                        content = ascii ''cd''\<rparr>], lastPosition = None\<rparr> \<and>
   1 < length (txtParts asciiUnicode twoChaptersText) \<and>
   list_ex (keepsLine asciiUnicode (stripExtension (fileName twoChapters))
              (repeatingHeaderOf (txtRawChapters asciiUnicode sampleIds twoChaptersText)))
     (txtRawChapters asciiUnicode sampleIds twoChaptersText) \<and>
   map chapter_id
     (filter (keepsLine asciiUnicode (stripExtension (fileName twoChapters))
                (repeatingHeaderOf (txtRawChapters asciiUnicode sampleIds twoChaptersText)))
        (txtRawChapters asciiUnicode sampleIds twoChaptersText)) = [ascii ''id0'', ascii ''id1''] \<and>
   parseFile asciiUnicode sampleIds headingsOnly =
     Inr \<lparr>book_id = ascii ''id2'', book_title = ascii ''a'', author = None, coverImage = None,
           chapters = [], lastPosition = None\<rparr> \<and>
   1 < length (txtParts asciiUnicode (ascii ''Chapter 1'' @ [NEWLINE] @ ascii ''Chapter 2'')) \<and>
   \<not> list_ex (keepsLine asciiUnicode (stripExtension (fileName headingsOnly))
                (repeatingHeaderOf (txtRawChapters asciiUnicode sampleIds
                   (ascii ''Chapter 1'' @ [NEWLINE] @ ascii ''Chapter 2''))))
       (txtRawChapters asciiUnicode sampleIds (ascii ''Chapter 1'' @ [NEWLINE] @ ascii ''Chapter 2''))"
proof -
  let ?f = "emptyEpub\<lparr>fileEpub := Opened partialEpub\<rparr>"
  let ?b = "\<lparr>book_id = ascii ''id3'', book_title = ascii ''MyBook'', author = None, coverImage = None,
           chapters = [\<lparr>chapter_id = ascii ''id1'', chapter_title = ascii ''Chapter 2'',
                        content = ascii ''hello''\<rparr>], lastPosition = None\<rparr>"
  let ?b1 = "\<lparr>book_id = ascii ''id1'', book_title = ascii ''a'', author = None, coverImage = None,
           chapters = [\<lparr>chapter_id = ascii ''id0'', chapter_title = ascii ''Full Text'',
                        content = ascii ''hello''\<rparr>], lastPosition = None\<rparr>"
  let ?b2 = "\<lparr>book_id = ascii ''id2'', book_title = ascii ''a'', author = None, coverImage = None,
           chapters = [\<lparr>chapter_id = ascii ''id0'', chapter_title = ascii ''Chapter 1'',
                        content = ascii ''ab''\<rparr>,
                       \<lparr>chapter_id = ascii ''id1'', chapter_title = ascii ''Chapter 2'',
                        content = ascii ''cd''\<rparr>], lastPosition = None\<rparr>"
  let ?keeps = "keepsLine asciiUnicode (stripExtension (fileName twoChapters))
              (repeatingHeaderOf (txtRawChapters asciiUnicode sampleIds twoChaptersText))"
  let ?raws = "txtRawChapters asciiUnicode sampleIds twoChaptersText"
  have n: "fileName ?f = ascii ''a.epub''" "fileEpub ?f = Opened partialEpub"
    by (simp_all add: emptyEpub_def)
  have t: "ascii ''epub'' \<noteq> ascii ''txt''"
    by (simp add: ascii_def)
  have m: "epubTitle (ascii ''a.epub'') partialEpub = ascii ''MyBook''"
    by (simp add: epubTitle_def partialEpub_def ascii_def)
  have l: "length (spine partialEpub) = 3"
    by (simp add: partialEpub_def)
  have i: "sampleIds 3 = ascii ''id3''"
    by (simp add: sampleIds_def ascii_def)
  have o: "creator partialEpub = None" "cover partialEpub = None" "spine partialEpub \<noteq> []"
    by (simp_all add: partialEpub_def)
  have r: "parseFile asciiUnicode sampleIds ?f = Inr ?b"
    using partialEpub_chapters
    by (simp add: parseFile_def n epub_extension t parseEpub_Opened m l i o)
  have x: "extensionOf asciiUnicode (fileName ?f) \<noteq> ascii ''txt''"
    using t by (simp add: n epub_extension)
  from parseFile_chapters [of asciiUnicode sampleIds ?f ?b] r x
  have e: "extensionOf asciiUnicode (fileName ?f) = ascii ''epub''"
    by blast
  have x1: "extensionOf asciiUnicode (fileName plainText) = ascii ''txt''"
    "fileText plainText = Some (ascii ''hello'')"
    by (simp_all add: plainText_def txt_extension)
  have p1: "length (txtParts asciiUnicode (ascii ''hello'')) \<le> 1"
    by (simp add: txtParts_plainText)
  from parseFile_chapters [of asciiUnicode sampleIds plainText ?b1] parseFile_plainText x1 t p1
  have f1: "map chapter_title (chapters ?b1) = [ascii ''Full Text'']"
    by auto
  have x2: "extensionOf asciiUnicode (fileName twoChapters) = ascii ''txt''"
    "fileText twoChapters = Some twoChaptersText"
    by (simp_all add: twoChapters_def txt_extension)
  have p2: "1 < length (txtParts asciiUnicode twoChaptersText)"
    by (simp add: txtParts_twoChapters)
  have c2: "chapters ?b2 \<noteq> []" "map chapter_id (chapters ?b2) = [ascii ''id0'', ascii ''id1'']"
    by simp_all
  from parseFile_chapters [of asciiUnicode sampleIds twoChapters ?b2] parseFile_twoChapters x2 t
  have "(1 < length (txtParts asciiUnicode twoChaptersText) \<longrightarrow>
            map chapter_id (chapters ?b2) = map chapter_id (filter ?keeps ?raws)) \<and>
        (chapters ?b2 = [] \<longleftrightarrow>
            1 < length (txtParts asciiUnicode twoChaptersText) \<and> \<not> list_ex ?keeps ?raws)"
    by auto
  then have k2: "list_ex ?keeps ?raws" "map chapter_id (filter ?keeps ?raws) = [ascii ''id0'', ascii ''id1'']"
    using p2 c2 by auto
  let ?h = "ascii ''Chapter 1'' @ [NEWLINE] @ ascii ''Chapter 2''"
  let ?b3 = "\<lparr>book_id = ascii ''id2'', book_title = ascii ''a'', author = None, coverImage = None,
           chapters = [], lastPosition = None\<rparr>"
  have x3: "extensionOf asciiUnicode (fileName headingsOnly) = ascii ''txt''"
    "fileText headingsOnly = Some ?h"
    by (simp_all add: headingsOnly_def txt_extension)
  have p3: "1 < length (txtParts asciiUnicode ?h)"
    using txtParts_headingsOnly by simp
  from parseFile_chapters [of asciiUnicode sampleIds headingsOnly ?b3] parseFile_headingsOnly x3 t
  have "chapters ?b3 = [] \<longleftrightarrow>
          1 < length (txtParts asciiUnicode ?h) \<and>
          \<not> list_ex (keepsLine asciiUnicode (stripExtension (fileName headingsOnly))
                       (repeatingHeaderOf (txtRawChapters asciiUnicode sampleIds ?h)))
              (txtRawChapters asciiUnicode sampleIds ?h)"
    by auto
  then have k3: "\<not> list_ex (keepsLine asciiUnicode (stripExtension (fileName headingsOnly))
                       (repeatingHeaderOf (txtRawChapters asciiUnicode sampleIds ?h)))
              (txtRawChapters asciiUnicode sampleIds ?h)"
    by simp
  show ?thesis
    using r e o(3) parseFile_plainText x1(1) p1 parseFile_twoChapters p2 k2
      parseFile_headingsOnly p3 k3 by simp
qed

end
